theory Spec2Isabelle
  imports Complex_Main "HOL-Library.AList" "HOL-Library.Multiset"
begin

section \<open>Git project statistics: the commit aggregation engine\<close>

text \<open>
  A shallow embedding of the aggregation core of the tool: the alias resolver of
  \<^verbatim>\<open>utils.py\<close>, the commit aggregator of \<^verbatim>\<open>git_analyzer.py\<close>, the balance
  indicators and the table writer of \<^verbatim>\<open>report_generator.py\<close>, and the date handling
  of \<^verbatim>\<open>config.py\<close> and \<^verbatim>\<open>main.py\<close>.

  Conventions of the model.
  \<^item> A Python \<^verbatim>\<open>str\<close> is the list of its code points, the numbers that \<^verbatim>\<open>ord\<close>
    gives for its characters.
  \<^item> A Python \<^verbatim>\<open>int\<close> is an \<open>int\<close>.
  \<^item> A \<^verbatim>\<open>dict\<close>, a \<^verbatim>\<open>defaultdict\<close> or a \<^verbatim>\<open>Counter\<close> that the program iterates
    over is an association list in insertion order; an alias table, which is only looked
    up, is a map.
  \<^item> An exception is a value: a function that can raise returns \<open>option\<close> or a sum.
  \<^item> The git library and the file system are inputs: a repository is given by the
    commits each of its branches yields and by the places where reading it fails.
  \<^item> Three functions of Python's library are parameters, since what they compute is
    fixed by tables and formats of the interpreter and not by the repository:
    \<^verbatim>\<open>str.lower\<close> (written \<open>lower\<close>), \<^verbatim>\<open>datetime.strptime\<close> with the format
    \<^verbatim>\<open>"%Y-%m-%d"\<close> (written \<open>strptime\<close>) and the rounding of a quotient of integers to
    a float (written \<open>fl\<close>). A property of one of them that a theorem needs is an
    hypothesis of that theorem.
\<close>

subsection \<open>Python strings\<close>

type_synonym str = "int list"

text \<open>A literal of the source, which is ASCII text.\<close>

definition str_of :: "string \<Rightarrow> str" where
  "str_of s = map of_char s"

text \<open>
  \<^verbatim>\<open>str.isspace\<close> on one character, the test \<^verbatim>\<open>strip()\<close> applies: the code points
  U+0009 to U+000D, U+001C to U+0020, U+0085, U+00A0, U+1680, U+2000 to U+200A, U+2028,
  U+2029, U+202F, U+205F and U+3000.
\<close>

definition isspace :: "int \<Rightarrow> bool" where
  "isspace c =
     ((9 \<le> c \<and> c \<le> 13) \<or> (28 \<le> c \<and> c \<le> 32) \<or> c = 133 \<or> c = 160 \<or> c = 5760
      \<or> (8192 \<le> c \<and> c \<le> 8202) \<or> c = 8232 \<or> c = 8233 \<or> c = 8239 \<or> c = 8287
      \<or> c = 12288)"

text \<open>\<^verbatim>\<open>s.strip()\<close>: white space is removed from both ends.\<close>

definition strip :: "str \<Rightarrow> str" where
  "strip s = rev (dropWhile isspace (rev (dropWhile isspace s)))"

text \<open>
  Three laws of \<^verbatim>\<open>str.lower\<close>. Lower-casing twice is lower-casing once. White space
  has no case and no character lower-cases to white space, so that it makes no
  difference whether a text is trimmed before or after it is lower-cased, and a text
  with white space at one of its ends keeps it when lower-cased.
\<close>

definition lower_idempotent :: "(str \<Rightarrow> str) \<Rightarrow> bool" where
  "lower_idempotent lower = (\<forall>s. lower (lower s) = lower s)"

definition lower_commutes_with_strip :: "(str \<Rightarrow> str) \<Rightarrow> bool" where
  "lower_commutes_with_strip lower = (\<forall>s. strip (lower s) = lower (strip s))"

definition lower_keeps_white_space :: "(str \<Rightarrow> str) \<Rightarrow> bool" where
  "lower_keeps_white_space lower = (\<forall>s. strip (lower s) = lower s \<longrightarrow> strip s = s)"

text \<open>
  What \<^verbatim>\<open>str.lower\<close> does on ASCII text: the letters A to Z become a to z. The
  examples, which are ASCII text, are run with it.
\<close>

definition ascii_lower :: "str \<Rightarrow> str" where
  "ascii_lower s = map (\<lambda>c. if 65 \<le> c \<and> c \<le> 90 then c + 32 else c) s"

subsection \<open>The alias resolver (\<^verbatim>\<open>utils.py\<close>)\<close>

type_synonym alias_mapping = "str \<rightharpoonup> (str \<rightharpoonup> str)"

text \<open>
  \<^verbatim>\<open>
  def map_alias_to_name(author_name, group_label, alias_mapping_by_group):
      normalized_author = author_name.strip().lower()
      if group_label in alias_mapping_by_group:
          grp_dict = alias_mapping_by_group[group_label]
          if normalized_author in grp_dict:
              return grp_dict[normalized_author]
      global_dict = alias_mapping_by_group.get("global", {})
      if normalized_author in global_dict:
          return global_dict[normalized_author]
      return normalized_author
  \<close>
\<close>

definition in_group_dict :: "alias_mapping \<Rightarrow> str \<Rightarrow> str \<Rightarrow> str option" where
  "in_group_dict alias_mapping_by_group group_label normalized_author =
     (case alias_mapping_by_group group_label of
        None \<Rightarrow> None
      | Some grp_dict \<Rightarrow> grp_dict normalized_author)"

definition map_alias_to_name :: "(str \<Rightarrow> str) \<Rightarrow> str \<Rightarrow> str \<Rightarrow> alias_mapping \<Rightarrow> str" where
  "map_alias_to_name lower author_name group_label alias_mapping_by_group =
     (let normalized_author = lower (strip author_name) in
      case in_group_dict alias_mapping_by_group group_label normalized_author of
        Some unified \<Rightarrow> unified
      | None \<Rightarrow>
          (let global_dict = (case alias_mapping_by_group (str_of ''global'') of
                                None \<Rightarrow> Map.empty
                              | Some d \<Rightarrow> d)
           in case global_dict normalized_author of
                Some unified \<Rightarrow> unified
              | None \<Rightarrow> normalized_author))"

subsection \<open>Dates\<close>

text \<open>
  A naive \<^verbatim>\<open>datetime\<close> is a calendar day, kept as its ordinal in the proleptic Gregorian
  calendar (\<^verbatim>\<open>date.toordinal()\<close>: 1 is 0001-01-01), and a time of day in microseconds.
  Python compares two naive datetimes field by field, from the year down to the
  microsecond: the lexicographic order on the day and the time of day.
\<close>

record datetime =
  ordinal :: int
  time_of_day :: nat

definition dt_le :: "datetime \<Rightarrow> datetime \<Rightarrow> bool" where
  "dt_le a b = (ordinal a < ordinal b \<or> (ordinal a = ordinal b \<and> time_of_day a \<le> time_of_day b))"

definition dt_lt :: "datetime \<Rightarrow> datetime \<Rightarrow> bool" where
  "dt_lt a b = (ordinal a < ordinal b \<or> (ordinal a = ordinal b \<and> time_of_day a < time_of_day b))"

text \<open>
  \<^verbatim>\<open>d.strftime('%Y-%m-%d')\<close> names the calendar day of \<open>d\<close> and nothing else. The
  dictionaries keyed by this text are keyed by the day here.
\<close>

type_synonym day_str = int

definition strftime_ymd :: "datetime \<Rightarrow> day_str" where
  "strftime_ymd d = ordinal d"

datatype py_error = ValueError | OverflowError

text \<open>
  \<^verbatim>\<open>d + timedelta(days=n)\<close>. The \<^verbatim>\<open>timedelta\<close> takes at most 999999999 days either
  way, and the sum has to stay between 0001-01-01 and 9999-12-31 (the ordinals 1 and
  3652059); otherwise Python raises \<^verbatim>\<open>OverflowError\<close>.
\<close>

definition add_days :: "datetime \<Rightarrow> int \<Rightarrow> py_error + datetime" where
  "add_days d n =
     (if n < - 999999999 \<or> 999999999 < n then Inl OverflowError
      else if ordinal d + n < 1 \<or> 3652059 < ordinal d + n then Inl OverflowError
      else Inr (d\<lparr>ordinal := ordinal d + n\<rparr>))"

text \<open>\<^verbatim>\<open>(b - a).days\<close>: the whole days of the difference, rounded down.\<close>

definition days_between :: "datetime \<Rightarrow> datetime \<Rightarrow> int" where
  "days_between a b =
     ((ordinal b - ordinal a) * 86400000000 + (int (time_of_day b) - int (time_of_day a)))
       div 86400000000"

subsubsection \<open>The calendar\<close>

text \<open>
  The ordinal of a date, as \<^verbatim>\<open>datetime\<close> computes it: the days before the year, the
  days before the month in the year, and the day of the month.
\<close>

definition is_leap :: "int \<Rightarrow> bool" where
  "is_leap y = (y mod 4 = 0 \<and> (y mod 100 \<noteq> 0 \<or> y mod 400 = 0))"

definition days_in_month :: "int \<Rightarrow> int \<Rightarrow> int" where
  "days_in_month y m =
     (if m = 2 then (if is_leap y then 29 else 28)
      else if m = 4 \<or> m = 6 \<or> m = 9 \<or> m = 11 then 30 else 31)"

definition days_before_year :: "int \<Rightarrow> int" where
  "days_before_year y = (y - 1) * 365 + (y - 1) div 4 - (y - 1) div 100 + (y - 1) div 400"

definition days_before_month :: "int \<Rightarrow> int \<Rightarrow> int" where
  "days_before_month y m = sum_list (map (days_in_month y) [1..m - 1])"

text \<open>\<^verbatim>\<open>datetime(y, m, d)\<close>, midnight of a valid date.\<close>

definition datetime_ymd :: "int \<Rightarrow> int \<Rightarrow> int \<Rightarrow> datetime" where
  "datetime_ymd y m d =
     \<lparr>ordinal = days_before_year y + days_before_month y m + d, time_of_day = 0\<rparr>"

subsection \<open>What the git library hands to the aggregator\<close>

text \<open>
  Of a commit the aggregator reads three things: \<^verbatim>\<open>commit.committed_date\<close>, kept here
  as the local datetime that \<^verbatim>\<open>datetime.fromtimestamp\<close> makes of it;
  \<^verbatim>\<open>commit.author.name\<close>; and \<^verbatim>\<open>commit.stats.total\<close>, a dictionary. Computing the
  statistics runs git on the commit and its parent and raises when an object is
  missing: \<open>stats_total\<close> is \<open>None\<close> then.
\<close>

record commit =
  committed_date :: datetime
  author_name :: str
  stats_total :: "(str \<times> int) list option"

text \<open>
  \<^verbatim>\<open>repo.iter_commits(branch)\<close> yields the commits of a branch one by one; it can raise
  after the last commit it yields (\<open>iter_raises\<close>).
\<close>

datatype branch = Branch (yields: "commit list") (iter_raises: bool)

text \<open>
  The path given to the aggregator has no \<^verbatim>\<open>.git\<close> folder, or \<^verbatim>\<open>git.Repo\<close> fails on
  it, or it opens and has the branches \<^verbatim>\<open>all_branches\<close> (the local ones, then the
  remote ones).
\<close>

datatype repository = NoGitDir | OpenFails | Repo "branch list"

subsection \<open>Dictionaries\<close>

text \<open>\<^verbatim>\<open>d.get(k, default)\<close>\<close>

definition dict_get :: "('k \<times> 'v) list \<Rightarrow> 'k \<Rightarrow> 'v \<Rightarrow> 'v" where
  "dict_get d k dflt = (case map_of d k of None \<Rightarrow> dflt | Some v \<Rightarrow> v)"

text \<open>
  \<^verbatim>\<open>d[k]\<close> on a \<^verbatim>\<open>defaultdict\<close>, followed by a change \<open>f\<close> of the entry in place:
  a missing key is first given the default value, at the end of the dictionary.
\<close>

fun defaultdict_modify :: "'k \<Rightarrow> 'v \<Rightarrow> ('v \<Rightarrow> 'v) \<Rightarrow> ('k \<times> 'v) list \<Rightarrow> ('k \<times> 'v) list" where
  "defaultdict_modify k dflt f [] = [(k, f dflt)]"
| "defaultdict_modify k dflt f ((k', v) # d) =
     (if k' = k then (k', f v) # d else (k', v) # defaultdict_modify k dflt f d)"

text \<open>\<^verbatim>\<open>c[k] += n\<close> on a \<^verbatim>\<open>Counter\<close>: a missing key reads as 0.\<close>

definition counter_add :: "'k \<Rightarrow> int \<Rightarrow> ('k \<times> int) list \<Rightarrow> ('k \<times> int) list" where
  "counter_add k n c = AList.update k (dict_get c k 0 + n) c"

subsection \<open>The commit aggregator (\<^verbatim>\<open>git_analyzer.py\<close>)\<close>

record author_stats =
  insertions :: int
  deletions :: int
  daily_commits :: "(day_str \<times> int) list"
  daily_insertions :: "(day_str \<times> int) list"
  daily_deletions :: "(day_str \<times> int) list"
  active_days :: int

type_synonym changes = "(str \<times> (str \<times> author_stats) list) list"

text \<open>The value a new author starts with in \<^verbatim>\<open>changes_by_group\<close>.\<close>

definition new_author_stats :: author_stats where
  "new_author_stats =
     \<lparr>insertions = 0, deletions = 0, daily_commits = [], daily_insertions = [],
      daily_deletions = [], active_days = 0\<rparr>"

text \<open>
  The arguments of \<^verbatim>\<open>collect_changes_by_group\<close> that its loops read, and with them
  the \<^verbatim>\<open>str.lower\<close> of the library.
\<close>

record scope =
  str_lower :: "str \<Rightarrow> str"
  group_label :: str
  excluded :: "str list"
  start_date :: datetime
  end_date :: datetime
  alias_mapping_by_group :: alias_mapping
  map_alias_func :: "str \<Rightarrow> str \<Rightarrow> alias_mapping \<Rightarrow> str"

text \<open>
  The body of the inner loop, for one commit. \<open>None\<close>: the body raises, which ends the
  loop over the branch. \<open>Some\<close>: the loop goes on with the dictionary given.
  \<^verbatim>\<open>
  commit_date = datetime.fromtimestamp(commit.committed_date)
  if not (start_date <= commit_date < end_date):
      continue
  author_raw = commit.author.name.strip().lower()
  if author_raw in map(str.lower, excluded):
      continue
  unified_name = map_alias_func(author_raw, group_label, alias_mapping_by_group)
  stats = commit.stats.total
  day_str = commit_date.strftime('%Y-%m-%d')
  ch = changes_by_group[group_label][unified_name]
  ch['daily_commits'][day_str] += 1
  ch['daily_insertions'][day_str] += stats.get('insertions', 0)
  ch['daily_deletions'][day_str] += stats.get('deletions', 0)
  \<close>
\<close>

definition visit :: "scope \<Rightarrow> commit \<Rightarrow> changes \<Rightarrow> changes option" where
  "visit sc commit changes_by_group =
     (let commit_date = committed_date commit in
      if \<not> (dt_le (start_date sc) commit_date \<and> dt_lt commit_date (end_date sc))
      then Some changes_by_group
      else
        let author_raw = str_lower sc (strip (author_name commit)) in
        if author_raw \<in> set (map (str_lower sc) (excluded sc))
        then Some changes_by_group
        else
          let unified_name =
                map_alias_func sc author_raw (group_label sc) (alias_mapping_by_group sc)
          in case stats_total commit of
               None \<Rightarrow> None
             | Some stats \<Rightarrow>
                 let day_str = strftime_ymd commit_date in
                 Some (defaultdict_modify (group_label sc) []
                         (defaultdict_modify unified_name new_author_stats
                            (\<lambda>ch. ch\<lparr>daily_commits := counter_add day_str 1 (daily_commits ch),
                                      daily_insertions :=
                                        counter_add day_str (dict_get stats (str_of ''insertions'') 0)
                                          (daily_insertions ch),
                                      daily_deletions :=
                                        counter_add day_str (dict_get stats (str_of ''deletions'') 0)
                                          (daily_deletions ch)\<rparr>))
                         changes_by_group))"

text \<open>
  The loop over the commits of one branch, inside its \<^verbatim>\<open>try\<close>. The result is the
  dictionary as the loop leaves it and whether an exception was caught (and a warning
  logged): the changes made before the exception stay.
\<close>

fun commits_loop :: "scope \<Rightarrow> commit list \<Rightarrow> bool \<Rightarrow> changes \<Rightarrow> changes \<times> bool" where
  "commits_loop sc [] raises changes_by_group = (changes_by_group, raises)"
| "commits_loop sc (commit # rest) raises changes_by_group =
     (case visit sc commit changes_by_group of
        None \<Rightarrow> (changes_by_group, True)
      | Some changes' \<Rightarrow> commits_loop sc rest raises changes')"

text \<open>The loop over the branches: a branch that failed is followed by the next one.\<close>

fun branches_loop :: "scope \<Rightarrow> branch list \<Rightarrow> changes \<Rightarrow> changes" where
  "branches_loop sc [] changes_by_group = changes_by_group"
| "branches_loop sc (b # all_branches) changes_by_group =
     branches_loop sc all_branches
       (fst (commits_loop sc (yields b) (iter_raises b) changes_by_group))"

text \<open>
  \<^verbatim>\<open>
  for grp in changes_by_group:
      for member, data in changes_by_group[grp].items():
          data['insertions'] = sum(data['daily_insertions'].values())
          data['deletions'] = sum(data['daily_deletions'].values())
          data['active_days'] = sum(1 for _, count in data['daily_commits'].items() if count > 0)
  \<close>
\<close>

definition summarize_author :: "author_stats \<Rightarrow> author_stats" where
  "summarize_author data =
     data\<lparr>insertions := sum_list (map snd (daily_insertions data)),
          deletions := sum_list (map snd (daily_deletions data)),
          active_days := int (length (filter (\<lambda>(_, count). 0 < count) (daily_commits data)))\<rparr>"

definition summarize :: "changes \<Rightarrow> changes" where
  "summarize changes_by_group =
     map (\<lambda>(grp, members). (grp, map (\<lambda>(member, data). (member, summarize_author data)) members))
       changes_by_group"

definition collect_changes_by_group ::
  "(str \<Rightarrow> str) \<Rightarrow> repository \<Rightarrow> str \<Rightarrow> str list \<Rightarrow> datetime \<Rightarrow> datetime \<Rightarrow> alias_mapping
     \<Rightarrow> (str \<Rightarrow> str \<Rightarrow> alias_mapping \<Rightarrow> str) \<Rightarrow> changes" where
  "collect_changes_by_group lower repo_path group_label' excluded' start_date' end_date'
     alias_mapping_by_group' map_alias_func' =
     (case repo_path of
        NoGitDir \<Rightarrow> []
      | OpenFails \<Rightarrow> []
      | Repo all_branches \<Rightarrow>
          summarize
            (branches_loop
               \<lparr>str_lower = lower, group_label = group_label', excluded = excluded',
                start_date = start_date', end_date = end_date',
                alias_mapping_by_group = alias_mapping_by_group',
                map_alias_func = map_alias_func'\<rparr>
               all_branches []))"

subsubsection \<open>The tests and the update of the loop body, by name\<close>

text \<open>\<^verbatim>\<open>start_date <= commit_date < end_date\<close>\<close>

definition in_window :: "scope \<Rightarrow> commit \<Rightarrow> bool" where
  "in_window sc commit =
     (dt_le (start_date sc) (committed_date commit) \<and> dt_lt (committed_date commit) (end_date sc))"

text \<open>\<^verbatim>\<open>commit.author.name.strip().lower() in map(str.lower, excluded)\<close>\<close>

definition is_excluded :: "scope \<Rightarrow> commit \<Rightarrow> bool" where
  "is_excluded sc commit =
     (str_lower sc (strip (author_name commit)) \<in> set (map (str_lower sc) (excluded sc)))"

text \<open>The three additions to the counters of an author.\<close>

definition accumulate :: "day_str \<Rightarrow> (str \<times> int) list \<Rightarrow> author_stats \<Rightarrow> author_stats" where
  "accumulate day stats ch =
     ch\<lparr>daily_commits := counter_add day 1 (daily_commits ch),
        daily_insertions :=
          counter_add day (dict_get stats (str_of ''insertions'') 0) (daily_insertions ch),
        daily_deletions :=
          counter_add day (dict_get stats (str_of ''deletions'') 0) (daily_deletions ch)\<rparr>"

subsubsection \<open>What a dictionary of changes records\<close>

text \<open>
  The commits, inserted lines and deleted lines that a dictionary records, over all its
  groups, authors and days. A commit that is counted adds one to \<open>count_commits\<close>.
\<close>

definition count_commits :: "changes \<Rightarrow> int" where
  "count_commits changes_by_group =
     (\<Sum>(grp, members)\<leftarrow>changes_by_group. \<Sum>(member, data)\<leftarrow>members.
        sum_list (map snd (daily_commits data)))"

definition count_insertions :: "changes \<Rightarrow> int" where
  "count_insertions changes_by_group =
     (\<Sum>(grp, members)\<leftarrow>changes_by_group. \<Sum>(member, data)\<leftarrow>members.
        sum_list (map snd (daily_insertions data)))"

definition count_deletions :: "changes \<Rightarrow> int" where
  "count_deletions changes_by_group =
     (\<Sum>(grp, members)\<leftarrow>changes_by_group. \<Sum>(member, data)\<leftarrow>members.
        sum_list (map snd (daily_deletions data)))"

definition counted :: "scope \<Rightarrow> commit \<Rightarrow> changes \<Rightarrow> bool" where
  "counted sc commit changes_by_group =
     (case visit sc commit changes_by_group of
        None \<Rightarrow> False
      | Some changes' \<Rightarrow> count_commits changes' = count_commits changes_by_group + 1)"

text \<open>The body of the loop raises on this commit (whatever the dictionary holds).\<close>

definition visit_raises :: "scope \<Rightarrow> commit \<Rightarrow> bool" where
  "visit_raises sc commit = (visit sc commit [] = None)"

text \<open>The traversal of a branch ends in the \<^verbatim>\<open>except\<close> clause.\<close>

definition branch_fails :: "scope \<Rightarrow> branch \<Rightarrow> bool" where
  "branch_fails sc b = snd (commits_loop sc (yields b) (iter_raises b) [])"




text \<open>The keys of every dictionary inside a dictionary of changes are distinct.\<close>

definition distinct_counters :: "author_stats \<Rightarrow> bool" where
  "distinct_counters data =
     (distinct (map fst (daily_commits data)) \<and> distinct (map fst (daily_insertions data))
      \<and> distinct (map fst (daily_deletions data)))"

definition distinct_keys :: "changes \<Rightarrow> bool" where
  "distinct_keys changes_by_group =
     (distinct (map fst changes_by_group)
      \<and> list_all (\<lambda>(grp, members). distinct (map fst members)
                     \<and> list_all (\<lambda>(member, data). distinct_counters data) members)
           changes_by_group)"

subsection \<open>The balance indicators (\<^verbatim>\<open>report_generator.py\<close>)\<close>

text \<open>A row of the table of totals, as \<^verbatim>\<open>read_volumes\<close> keeps it per group and member.\<close>

record volume =
  row_insertions :: int
  row_deletions :: int
  total_commits :: int
  row_active_days :: int

record balance_indicator =
  dominant_ratio :: rat
  dominant_member :: "str option"

text \<open>\<^verbatim>\<open>max(...)\<close> of a sequence: it raises \<^verbatim>\<open>ValueError\<close> on an empty one.\<close>

definition py_max :: "int list \<Rightarrow> py_error + int" where
  "py_max xs = (case xs of [] \<Rightarrow> Inl ValueError | x # rest \<Rightarrow> Inr (fold max rest x))"

text \<open>
  \<^verbatim>\<open>a / b\<close> on two integers, \<open>b\<close> not zero: the float that Python makes of the
  quotient. A float is a rational number, and \<open>fl\<close> rounds a rational number to a float.
  Rounding keeps the order, and 0 and 1 are floats.
\<close>

definition truediv :: "(rat \<Rightarrow> rat) \<Rightarrow> int \<Rightarrow> int \<Rightarrow> rat" where
  "truediv fl a b = fl (of_int a / of_int b)"

definition rounding :: "(rat \<Rightarrow> rat) \<Rightarrow> bool" where
  "rounding fl = ((\<forall>x y. x \<le> y \<longrightarrow> fl x \<le> fl y) \<and> fl 0 = 0 \<and> fl 1 = 1)"

text \<open>
  \<^verbatim>\<open>
  for mem, val in members.items():
      if val['total_commits'] == max_commits:
          balance[group] = {'dominant_ratio': max_commits / total_commits,
                            'dominant_member': mem}
          break
  \<close>
\<close>

fun dominant_loop ::
  "(rat \<Rightarrow> rat) \<Rightarrow> int \<Rightarrow> int \<Rightarrow> (str \<times> volume) list \<Rightarrow> balance_indicator option" where
  "dominant_loop fl max_commits total_commits' [] = None"
| "dominant_loop fl max_commits total_commits' ((mem, val) # members) =
     (if total_commits val = max_commits
      then Some \<lparr>dominant_ratio = truediv fl max_commits total_commits',
                 dominant_member = Some mem\<rparr>
      else dominant_loop fl max_commits total_commits' members)"

text \<open>
  The body of the loop over the groups: the indicator given to \<^verbatim>\<open>balance[group]\<close>,
  or \<open>None\<close> when the body leaves \<^verbatim>\<open>balance\<close> as it is.
  \<^verbatim>\<open>
  total_commits = sum(m['total_commits'] for m in members.values())
  if total_commits > 0:
      max_commits = max(m['total_commits'] for m in members.values())
      for mem, val in members.items(): ...
  else:
      balance[group] = {'dominant_ratio': 0, 'dominant_member': None}
  \<close>
\<close>

definition group_balance ::
  "(rat \<Rightarrow> rat) \<Rightarrow> (str \<times> volume) list \<Rightarrow> py_error + balance_indicator option" where
  "group_balance fl members =
     (let total_commits' = sum_list (map (\<lambda>(mem, m). total_commits m) members) in
      if 0 < total_commits'
      then (case py_max (map (\<lambda>(mem, m). total_commits m) members) of
              Inl e \<Rightarrow> Inl e
            | Inr max_commits \<Rightarrow> Inr (dominant_loop fl max_commits total_commits' members))
      else Inr (Some \<lparr>dominant_ratio = 0, dominant_member = None\<rparr>))"

fun balance_loop ::
  "(rat \<Rightarrow> rat) \<Rightarrow> (str \<times> (str \<times> volume) list) list \<Rightarrow> (str \<times> balance_indicator) list
     \<Rightarrow> py_error + (str \<times> balance_indicator) list" where
  "balance_loop fl [] balance = Inr balance"
| "balance_loop fl ((grp, members) # data) balance =
     (case group_balance fl members of
        Inl e \<Rightarrow> Inl e
      | Inr None \<Rightarrow> balance_loop fl data balance
      | Inr (Some indicator) \<Rightarrow> balance_loop fl data (AList.update grp indicator balance))"

definition calculate_balance_indicators ::
  "(rat \<Rightarrow> rat) \<Rightarrow> (str \<times> (str \<times> volume) list) list
     \<Rightarrow> py_error + (str \<times> balance_indicator) list" where
  "calculate_balance_indicators fl data = balance_loop fl data []"

subsection \<open>The tables of a run (\<^verbatim>\<open>report_generator.py\<close>, \<^verbatim>\<open>main.py\<close>)\<close>

text \<open>
  A folder of the students' directory: its name, which is the group label, and its
  subdirectories, each seen as the aggregator sees it.
\<close>

type_synonym student_dir = "str \<times> repository list"

record csv_files =
  output_csv :: "(str \<times> str \<times> int \<times> int \<times> int \<times> int) list"
  daily_csv :: "(str \<times> str \<times> day_str \<times> int \<times> int \<times> int) list"

text \<open>
  What a run does, in the order it does it: a warning logged for the start date, the
  message on a target date that does not parse, a call of
  \<^verbatim>\<open>collect_changes_by_group\<close> on the repository of a group, the two tables as they are
  when the loop over the folders ends, the closing message, an exception that nothing
  catches.
\<close>

datatype event =
    Log_warning
  | Print_invalid_date
  | Collect str repository
  | Written csv_files
  | Print_complete
  | Uncaught py_error

text \<open>
  \<^verbatim>\<open>
  total_commits = sum(changes['daily_commits'].values())
  writer_global.writerow([group_label, member, changes['insertions'], changes['deletions'],
                          total_commits, changes['active_days']])
  for day in date_list:
      day_str = day.strftime('%Y-%m-%d')
      writer_daily.writerow([group_label, member, day_str,
                             changes['daily_insertions'].get(day_str, 0),
                             changes['daily_deletions'].get(day_str, 0),
                             changes['daily_commits'].get(day_str, 0)])
  \<close>
\<close>

definition write_member ::
  "datetime list \<Rightarrow> str \<Rightarrow> str \<times> author_stats \<Rightarrow> csv_files \<Rightarrow> csv_files" where
  "write_member date_list group_label' row files =
     (case row of (member, changes) \<Rightarrow>
        files\<lparr>output_csv := output_csv files @
                 [(group_label', member, insertions changes, deletions changes,
                   sum_list (map snd (daily_commits changes)), active_days changes)],
              daily_csv := daily_csv files @
                 map (\<lambda>day. (group_label', member, strftime_ymd day,
                              dict_get (daily_insertions changes) (strftime_ymd day) 0,
                              dict_get (daily_deletions changes) (strftime_ymd day) 0,
                              dict_get (daily_commits changes) (strftime_ymd day) 0))
                   date_list\<rparr>)"

text \<open>
  The loop over the folders. A folder with no subdirectory is passed over; otherwise the
  first subdirectory is analysed, and its rows are written when the group has any.
\<close>

fun folders_loop ::
  "(str \<Rightarrow> str) \<Rightarrow> student_dir list \<Rightarrow> datetime list \<Rightarrow> datetime \<Rightarrow> datetime \<Rightarrow> str list
     \<Rightarrow> alias_mapping \<Rightarrow> (str \<Rightarrow> str \<Rightarrow> alias_mapping \<Rightarrow> str) \<Rightarrow> csv_files \<Rightarrow> event list" where
  "folders_loop lower [] date_list start end_date' excluded_members aliases func files =
     [Written files]"
| "folders_loop lower ((name, git_dirs) # rest) date_list start end_date' excluded_members aliases
     func files =
     (case git_dirs of
        [] \<Rightarrow> folders_loop lower rest date_list start end_date' excluded_members aliases func files
      | git_repo_path # _ \<Rightarrow>
          Collect name git_repo_path #
          (let changes_by_group =
                 collect_changes_by_group lower git_repo_path name excluded_members start
                   end_date' aliases func
           in case map_of changes_by_group name of
                None \<Rightarrow>
                  folders_loop lower rest date_list start end_date' excluded_members aliases func
                    files
              | Some sub_dict \<Rightarrow>
                  folders_loop lower rest date_list start end_date' excluded_members aliases func
                    (fold (write_member date_list name) sub_dict files)))"

text \<open>
  \<^verbatim>\<open>
  end_date = target_date + timedelta(days=analysis_days)
  date_list = [fixed_project_start_date + timedelta(days=i)
               for i in range((end_date - fixed_project_start_date).days)]
  \<close>
\<close>

definition write_volumes_to_csv ::
  "(str \<Rightarrow> str) \<Rightarrow> student_dir list \<Rightarrow> datetime \<Rightarrow> int \<Rightarrow> datetime \<Rightarrow> str list \<Rightarrow> alias_mapping
     \<Rightarrow> (str \<Rightarrow> str \<Rightarrow> alias_mapping \<Rightarrow> str) \<Rightarrow> py_error + event list" where
  "write_volumes_to_csv lower student_folders target_date analysis_days fixed_project_start_date
     excluded_members aliases func =
     (case add_days target_date analysis_days of
        Inl e \<Rightarrow> Inl e
      | Inr end_date' \<Rightarrow>
          (let date_list =
                 map (\<lambda>i. fixed_project_start_date
                            \<lparr>ordinal := ordinal fixed_project_start_date + int i\<rparr>)
                   [0..<nat (days_between fixed_project_start_date end_date')]
           in Inr (folders_loop lower student_folders date_list fixed_project_start_date
                     end_date' excluded_members aliases func
                     \<lparr>output_csv = [], daily_csv = []\<rparr>)))"

text \<open>
  \<^verbatim>\<open>
  def validate_date_format(date_str):
      return datetime.strptime(date_str, "%Y-%m-%d")
  \<close>
  \<open>None\<close> stands for the \<^verbatim>\<open>ValueError\<close> that \<^verbatim>\<open>strptime\<close> raises on a text
  that is no date in this format.
\<close>

definition validate_date_format :: "(str \<Rightarrow> datetime option) \<Rightarrow> str \<Rightarrow> datetime option" where
  "validate_date_format strptime date_str = strptime date_str"

text \<open>The command line and the configuration file, as far as the run reads them.\<close>

record args =
  arg_student_folders :: "student_dir list"
  arg_target_date :: str
  arg_analysis_days :: int

record config =
  conf_alias_mapping_by_group :: "alias_mapping option"
  conf_excluded_members :: "str list option"
  conf_fixed_project_start_date :: "str option"

text \<open>
  \<^verbatim>\<open>
  fixed_project_start_date = datetime(2025, 2, 1)
  if "fixed_project_start_date" in config:
      try:
          fixed_project_start_date = datetime.strptime(config["fixed_project_start_date"], "%Y-%m-%d")
      except ValueError:
          logging.warning(...)
  \<close>
\<close>

definition start_date_of :: "(str \<Rightarrow> datetime option) \<Rightarrow> config \<Rightarrow> datetime \<times> event list" where
  "start_date_of strptime conf =
     (case conf_fixed_project_start_date conf of
        None \<Rightarrow> (datetime_ymd 2025 2 1, [])
      | Some date_str \<Rightarrow>
          (case strptime date_str of
             Some d \<Rightarrow> (d, [])
           | None \<Rightarrow> (datetime_ymd 2025 2 1, [Log_warning])))"

text \<open>
  \<^verbatim>\<open>
  alias_mapping_by_group = config.get("alias_mapping_by_group", {})
  excluded_members = config.get("excluded_members", [])
  ...
  try:
      target_date = validate_date_format(args.target_date)
  except ValueError:
      print("Error: Invalid date format. Use YYYY-MM-DD.")
      return
  write_volumes_to_csv(...)
  \<close>
  The reports that follow read the two tables and are left out.
\<close>

definition main ::
  "(str \<Rightarrow> str) \<Rightarrow> (str \<Rightarrow> datetime option) \<Rightarrow> args \<Rightarrow> config \<Rightarrow> event list" where
  "main lower strptime a conf =
     (let aliases = (case conf_alias_mapping_by_group conf of None \<Rightarrow> Map.empty | Some m \<Rightarrow> m);
          excluded_members = (case conf_excluded_members conf of None \<Rightarrow> [] | Some l \<Rightarrow> l);
          (fixed_project_start_date, warnings) = start_date_of strptime conf
      in case validate_date_format strptime (arg_target_date a) of
           None \<Rightarrow> warnings @ [Print_invalid_date]
         | Some target_date \<Rightarrow>
             (case write_volumes_to_csv lower (arg_student_folders a) target_date
                     (arg_analysis_days a) fixed_project_start_date excluded_members aliases
                     (map_alias_to_name lower) of
                Inl e \<Rightarrow> warnings @ [Uncaught e]
              | Inr events \<Rightarrow> warnings @ events @ [Print_complete]))"

text \<open>An event that touches a repository or hands out a table.\<close>

fun touches :: "event \<Rightarrow> bool" where
  "touches (Collect name repo) = True"
| "touches (Written files) = True"
| "touches e = False"

subsection \<open>Definitions used in the proofs\<close>






subsection \<open>Examples\<close>

text \<open>
  A group \<^verbatim>\<open>group1\<close> analysed from 2025-02-01 to 2025-02-10 with no alias table; a
  commit of a given author on a given day (an ordinal; 739283 is 2025-02-01) that inserts
  10 lines and deletes 2; the same commit with statistics that cannot be read; and the
  totals of an author with \<open>n\<close> such commits on one day.
\<close>

definition eg_scope :: "str list \<Rightarrow> scope" where
  "eg_scope excl =
     \<lparr>str_lower = ascii_lower, group_label = str_of ''group1'', excluded = excl,
      start_date = datetime_ymd 2025 2 1, end_date = datetime_ymd 2025 2 10,
      alias_mapping_by_group = Map.empty, map_alias_func = map_alias_to_name ascii_lower\<rparr>"

definition eg_commit :: "string \<Rightarrow> int \<Rightarrow> commit" where
  "eg_commit name day =
     \<lparr>committed_date = \<lparr>ordinal = day, time_of_day = 0\<rparr>, author_name = str_of name,
      stats_total = Some [(str_of ''insertions'', 10), (str_of ''deletions'', 2),
                          (str_of ''lines'', 12), (str_of ''files'', 1)]\<rparr>"

definition eg_unreadable :: "string \<Rightarrow> int \<Rightarrow> commit" where
  "eg_unreadable name day = (eg_commit name day)\<lparr>stats_total := None\<rparr>"

definition eg_stats :: "int \<Rightarrow> int \<Rightarrow> author_stats" where
  "eg_stats day n =
     \<lparr>insertions = 10 * n, deletions = 2 * n, daily_commits = [(day, n)],
      daily_insertions = [(day, 10 * n)], daily_deletions = [(day, 2 * n)], active_days = 1\<rparr>"


text \<open>
  A table of totals with two groups, one whose members have 5 and 15 commits and one
  whose only member has none, and the indicators of the two groups.
\<close>

definition eg_volume :: "int \<Rightarrow> volume" where
  "eg_volume n = \<lparr>row_insertions = 0, row_deletions = 0, total_commits = n, row_active_days = 0\<rparr>"

definition eg_data :: "(str \<times> (str \<times> volume) list) list" where
  "eg_data =
     [(str_of ''A'', [(str_of ''m1'', eg_volume 5), (str_of ''m2'', eg_volume 15)]),
      (str_of ''B'', [(str_of ''m3'', eg_volume 0)])]"

definition eg_balance :: "(str \<times> balance_indicator) list" where
  "eg_balance =
     [(str_of ''A'', \<lparr>dominant_ratio = 3 / 4, dominant_member = Some (str_of ''m2'')\<rparr>),
      (str_of ''B'', \<lparr>dominant_ratio = 0, dominant_member = None\<rparr>)]"

text \<open>
  A run on one folder \<^verbatim>\<open>group1\<close> whose repository has one branch with one commit, of
  2025-02-02, with a given target date and no more days; a configuration file with
  nothing but, at most, a start date; and a parser of dates that knows the one date
  2025-02-03 and refuses every other text.
\<close>

definition eg_strptime :: "str \<Rightarrow> datetime option" where
  "eg_strptime s = (if s = str_of ''2025-02-03'' then Some (datetime_ymd 2025 2 3) else None)"

definition eg_args :: "string \<Rightarrow> args" where
  "eg_args target =
     \<lparr>arg_student_folders =
        [(str_of ''group1'', [Repo [Branch [eg_commit ''Alice'' 739284] False]])],
      arg_target_date = str_of target, arg_analysis_days = 0\<rparr>"

definition eg_config :: "string option \<Rightarrow> config" where
  "eg_config start =
     \<lparr>conf_alias_mapping_by_group = None, conf_excluded_members = None,
      conf_fixed_project_start_date = map_option str_of start\<rparr>"
section \<open>Properties of strings\<close>

lemma dropWhile_rev_dropWhile:
  "dropWhile P (rev (dropWhile P (rev (dropWhile P s)))) = rev (dropWhile P (rev (dropWhile P s)))"
proof (cases "dropWhile P s")
  case Nil
  show ?thesis unfolding Nil by simp
next
  case (Cons x xs)
  then have nx: "\<not> P x" by (metis hd_dropWhile list.sel(1) list.distinct(1))
  have "x \<in> set (rev (x # xs))" by simp
  then have l: "last (dropWhile P (rev (x # xs))) = last (rev (x # xs))"
    using nx by (rule dropWhile_last)
  have ne: "dropWhile P (rev (x # xs)) \<noteq> []"
    using nx by (auto simp: dropWhile_eq_Nil_conv)
  have "hd (rev (dropWhile P (rev (x # xs)))) = x"
    using ne l by (simp add: hd_rev)
  then have "\<not> P (hd (rev (dropWhile P (rev (x # xs)))))" using nx by simp
  moreover have "rev (dropWhile P (rev (x # xs))) \<noteq> []" using ne by simp
  ultimately have "dropWhile P (rev (dropWhile P (rev (x # xs)))) = rev (dropWhile P (rev (x # xs)))"
    by (cases "rev (dropWhile P (rev (x # xs)))") auto
  then show ?thesis by (simp only: Cons)
qed

lemma strip_idem: "strip (strip s) = strip s"
  by (simp add: strip_def dropWhile_rev_dropWhile)

lemma dropWhile_length_eq: "length (dropWhile P xs) = length xs \<Longrightarrow> dropWhile P xs = xs"
  by (metis append_self_conv2 length_0_conv length_append takeWhile_dropWhile_id add_cancel_right_left)

lemma strip_length_eq:
  assumes "length (strip e) = length e" shows "strip e = e"
proof -
  let ?d = "dropWhile isspace e"
  have 1: "length (dropWhile isspace (rev ?d)) = length e"
    using assms by (simp add: strip_def)
  have 2: "length (dropWhile isspace (rev ?d)) \<le> length (rev ?d)" by (rule length_dropWhile_le)
  have 3: "length ?d \<le> length e" by (rule length_dropWhile_le)
  from 1 2 3 have a: "length ?d = length e" and b: "length (dropWhile isspace (rev ?d)) = length (rev ?d)"
    by simp_all
  from a have "?d = e" by (rule dropWhile_length_eq)
  moreover from b have "dropWhile isspace (rev ?d) = rev ?d" by (rule dropWhile_length_eq)
  ultimately show ?thesis by (simp add: strip_def)
qed

lemma normalize_idem:
  assumes "lower_idempotent lower" "lower_commutes_with_strip lower"
  shows "lower (strip (strip (lower s))) = lower (strip s)"
proof -
  have "strip (strip (lower s)) = strip (lower s)" by (rule strip_idem)
  also have "\<dots> = lower (strip s)" using assms(2) by (simp add: lower_commutes_with_strip_def)
  finally show ?thesis using assms(1) by (simp add: lower_idempotent_def)
qed

lemma normalized_eq_imp_trimmed:
  assumes c: "lower_commutes_with_strip lower" and k: "lower_keeps_white_space lower"
    and eq: "lower (strip n) = lower e"
  shows "strip e = e"
proof -
  have "strip (lower e) = strip (lower (strip n))" using eq by simp
  also have "\<dots> = lower (strip (strip n))" using c by (simp add: lower_commutes_with_strip_def)
  also have "\<dots> = lower e" using eq by (simp add: strip_idem)
  finally show ?thesis using k by (simp add: lower_keeps_white_space_def)
qed

subsection \<open>The ASCII instance\<close>

lemma isspace_ascii_lower_char:
  "isspace (if 65 \<le> c \<and> c \<le> 90 then c + 32 else c) = isspace c"
  unfolding isspace_def by auto

lemma dropWhile_ascii_lower:
  "dropWhile isspace (ascii_lower s) = ascii_lower (dropWhile isspace s)"
  unfolding ascii_lower_def by (induction s) (simp_all add: isspace_ascii_lower_char)

lemma rev_ascii_lower: "rev (ascii_lower s) = ascii_lower (rev s)"
  by (simp add: ascii_lower_def rev_map)

lemma ascii_lower_idempotent: "lower_idempotent ascii_lower"
  by (simp add: lower_idempotent_def ascii_lower_def)

lemma ascii_lower_commutes_with_strip: "lower_commutes_with_strip ascii_lower"
  by (simp add: lower_commutes_with_strip_def strip_def dropWhile_ascii_lower rev_ascii_lower)

lemma ascii_lower_keeps_white_space: "lower_keeps_white_space ascii_lower"
proof -
  have "strip s = s" if "strip (ascii_lower s) = ascii_lower s" for s
  proof -
    have "strip (ascii_lower s) = ascii_lower (strip s)"
      using ascii_lower_commutes_with_strip by (simp add: lower_commutes_with_strip_def)
    with that have "length (ascii_lower (strip s)) = length (ascii_lower s)" by simp
    then have "length (strip s) = length s" by (simp add: ascii_lower_def)
    then show ?thesis by (rule strip_length_eq)
  qed
  then show ?thesis by (simp add: lower_keeps_white_space_def)
qed

section \<open>Properties of dictionaries\<close>


lemma keys_defaultdict_modify:
  "map fst (defaultdict_modify k d f xs) =
     (if k \<in> set (map fst xs) then map fst xs else map fst xs @ [k])"
  by (induction xs) (auto simp: rev_image_eqI)

lemma distinct_defaultdict_modify:
  "distinct (map fst xs) \<Longrightarrow> distinct (map fst (defaultdict_modify k d f xs))"
  by (simp add: keys_defaultdict_modify)

lemma list_all_defaultdict_modify:
  assumes "list_all (\<lambda>(k, v). P v) xs" and "\<And>v. P v \<Longrightarrow> P (f v)" and "P d"
  shows "list_all (\<lambda>(k, v). P v) (defaultdict_modify k d f xs)"
  using assms by (induction xs) auto

lemma sum_defaultdict_modify:
  fixes F :: "'v \<Rightarrow> int"
  assumes "\<And>v. F (f v) = F v + n" and "F d = 0"
  shows "(\<Sum>(k, v)\<leftarrow>defaultdict_modify k d f xs. F v) = (\<Sum>(k, v)\<leftarrow>xs. F v) + n"
  using assms by (induction xs) auto

lemma sum_update:
  "sum_list (map snd (AList.update k v c)) = sum_list (map snd c) - dict_get c k 0 + (v::int)"
  by (induction c) (auto simp: dict_get_def)

lemma sum_counter_add:
  "sum_list (map snd (counter_add k n c)) = sum_list (map snd c) + n"
  by (simp add: counter_add_def sum_update)


lemma distinct_counter_add:
  "distinct (map fst c) \<Longrightarrow> distinct (map fst (counter_add k n c))"
  by (simp add: counter_add_def distinct_update)

section \<open>Properties of the loops\<close>

lemma visit_eq:
  "visit sc c ch =
     (if \<not> in_window sc c \<or> is_excluded sc c then Some ch
      else case stats_total c of
             None \<Rightarrow> None
           | Some stats \<Rightarrow>
               Some (defaultdict_modify (group_label sc) []
                 (defaultdict_modify
                    (map_alias_func sc (str_lower sc (strip (author_name c))) (group_label sc)
                       (alias_mapping_by_group sc))
                    new_author_stats (accumulate (strftime_ymd (committed_date c)) stats)) ch))"
proof -
  have "accumulate d stats = (\<lambda>ch. ch\<lparr>daily_commits := counter_add d 1 (daily_commits ch),
          daily_insertions := counter_add d (dict_get stats (str_of ''insertions'') 0) (daily_insertions ch),
          daily_deletions := counter_add d (dict_get stats (str_of ''deletions'') 0) (daily_deletions ch)\<rparr>)"
    for d stats
    by (rule ext) (simp add: accumulate_def)
  then show ?thesis
    unfolding visit_def in_window_def is_excluded_def Let_def
    by (simp split: option.splits)
qed

lemma visit_raises_iff: "visit sc c ch = None \<longleftrightarrow> visit_raises sc c"
  by (simp add: visit_raises_def visit_eq split: option.splits)

lemma count_commits_modify:
  "count_commits (defaultdict_modify g [] (defaultdict_modify a new_author_stats (accumulate d stats)) ch)
     = count_commits ch + 1"
  unfolding count_commits_def
  by (rule sum_defaultdict_modify, rule sum_defaultdict_modify)
     (simp_all add: accumulate_def sum_counter_add new_author_stats_def)

lemma counted_iff:
  "counted sc c ch \<longleftrightarrow> in_window sc c \<and> \<not> is_excluded sc c \<and> stats_total c \<noteq> None"
  by (auto simp: counted_def visit_eq count_commits_modify split: option.splits)

lemma is_excluded_trimmed:
  assumes "lower_commutes_with_strip (str_lower sc)" "lower_keeps_white_space (str_lower sc)"
  shows "is_excluded (sc\<lparr>excluded := filter (\<lambda>e. strip e = e) (excluded sc)\<rparr>) c = is_excluded sc c"
  unfolding is_excluded_def using normalized_eq_imp_trimmed [OF assms] by auto

lemma visit_trimmed:
  assumes "lower_commutes_with_strip (str_lower sc)" "lower_keeps_white_space (str_lower sc)"
  shows "visit (sc\<lparr>excluded := filter (\<lambda>e. strip e = e) (excluded sc)\<rparr>) c ch = visit sc c ch"
  by (simp add: visit_eq is_excluded_trimmed [OF assms] in_window_def split: option.splits)

lemma commits_loop_cong:
  assumes "\<And>c ch. visit sc c ch = visit sc' c ch"
  shows "commits_loop sc cs r ch = commits_loop sc' cs r ch"
  by (induction cs arbitrary: ch) (simp_all add: assms split: option.splits)

lemma branches_loop_cong:
  assumes "\<And>c ch. visit sc c ch = visit sc' c ch"
  shows "branches_loop sc bs ch = branches_loop sc' bs ch"
  by (induction bs arbitrary: ch) (simp_all add: commits_loop_cong [OF assms])



lemma commits_loop_raises:
  "commits_loop sc cs r ch =
     (fst (commits_loop sc (takeWhile (\<lambda>c. \<not> visit_raises sc c) cs) False ch),
      (\<exists>c\<in>set cs. visit_raises sc c) \<or> r)"
proof (induction cs arbitrary: ch)
  case Nil
  show ?case by simp
next
  case (Cons c cs)
  show ?case
  proof (cases "visit sc c ch")
    case None
    then have "visit_raises sc c" by (simp add: visit_raises_iff)
    with None show ?thesis by simp
  next
    case (Some ch')
    then have "\<not> visit_raises sc c" using visit_raises_iff [of sc c ch] by simp
    with Some Cons [of ch'] show ?thesis by simp
  qed
qed

lemma branch_fails_iff:
  "branch_fails sc b \<longleftrightarrow> (\<exists>c\<in>set (yields b). visit_raises sc c) \<or> iter_raises b"
  unfolding branch_fails_def by (subst commits_loop_raises) simp

lemma branches_loop_append:
  "branches_loop sc (bs1 @ bs2) ch = branches_loop sc bs2 (branches_loop sc bs1 ch)"
  by (induction bs1 arbitrary: ch) simp_all

lemma branches_loop_one:
  "branches_loop sc (bs1 @ b # bs2) ch =
     branches_loop sc bs2 (fst (commits_loop sc (yields b) (iter_raises b) (branches_loop sc bs1 ch)))"
  by (simp add: branches_loop_append)

lemma visit_not_counted:
  "\<not> visit_raises sc c \<Longrightarrow> \<not> counted sc c ch0 \<Longrightarrow> visit sc c ch = Some ch"
  by (auto simp: counted_iff visit_raises_def visit_eq split: option.splits if_splits)

lemma commits_loop_none_counted:
  assumes "list_all (\<lambda>c. \<not> visit_raises sc c \<and> \<not> counted sc c []) cs"
  shows "fst (commits_loop sc cs r ch) = ch"
  using assms by (induction cs arbitrary: ch) (auto simp: visit_not_counted)


section \<open>The loops seen through their maps\<close>













lemma distinct_counters_accumulate:
  "distinct_counters st \<Longrightarrow> distinct_counters (accumulate d stats st)"
  by (simp add: distinct_counters_def accumulate_def distinct_counter_add)

lemma distinct_counters_new: "distinct_counters new_author_stats"
  by (simp add: distinct_counters_def new_author_stats_def)

lemma distinct_members_modify:
  assumes "distinct (map fst ms) \<and> list_all (\<lambda>(member, data). distinct_counters data) ms"
  shows "distinct (map fst (defaultdict_modify a new_author_stats (accumulate d stats) ms))
         \<and> list_all (\<lambda>(member, data). distinct_counters data)
               (defaultdict_modify a new_author_stats (accumulate d stats) ms)"
  using assms
  by (simp add: distinct_defaultdict_modify list_all_defaultdict_modify
      distinct_counters_accumulate distinct_counters_new)

lemma distinct_keys_modify:
  assumes "distinct_keys ch"
  shows "distinct_keys (defaultdict_modify g []
           (defaultdict_modify a new_author_stats (accumulate d stats)) ch)"
proof -
  let ?P = "\<lambda>ms. distinct (map fst ms) \<and> list_all (\<lambda>(member, data). distinct_counters data) ms"
  have "list_all (\<lambda>(grp, ms). ?P ms) ch" using assms by (simp add: distinct_keys_def)
  then have "list_all (\<lambda>(grp, ms). ?P ms)
      (defaultdict_modify g [] (defaultdict_modify a new_author_stats (accumulate d stats)) ch)"
    by (rule list_all_defaultdict_modify) (simp_all add: distinct_members_modify)
  then show ?thesis
    using assms by (simp add: distinct_keys_def distinct_defaultdict_modify)
qed

lemma distinct_keys_visit:
  "distinct_keys ch \<Longrightarrow> visit sc c ch = Some ch' \<Longrightarrow> distinct_keys ch'"
  by (auto simp: visit_eq distinct_keys_modify split: if_splits option.splits)

lemma distinct_keys_commits_loop:
  "distinct_keys ch \<Longrightarrow> distinct_keys (fst (commits_loop sc cs r ch))"
  by (induction cs arbitrary: ch) (auto simp: distinct_keys_visit split: option.splits)

lemma distinct_keys_branches_loop:
  "distinct_keys ch \<Longrightarrow> distinct_keys (branches_loop sc bs ch)"
  by (induction bs arbitrary: ch) (auto simp: distinct_keys_commits_loop)

lemma distinct_keys_Nil: "distinct_keys []"
  by (simp add: distinct_keys_def)












lemma count_positive_card:
  fixes xs :: "('k \<times> int) list"
  assumes "distinct (map fst xs)"
  shows "length (filter (\<lambda>(k, c). 0 < c) xs) = card {k. 0 < dict_get xs k 0}"
  using assms
proof (induction xs)
  case Nil
  show ?case by (simp add: dict_get_def)
next
  case (Cons p xs)
  obtain k v where p: "p = (k, v)" by (cases p)
  from Cons.prems p have nk: "k \<notin> fst ` set xs" and dx: "distinct (map fst xs)" by auto
  then have "map_of xs k = None" by (simp add: map_of_eq_None_iff)
  then have k0: "dict_get xs k 0 = 0" by (simp add: dict_get_def)
  have fin: "finite {k'. 0 < dict_get xs k' 0}"
  proof (rule finite_subset)
    show "{k'. 0 < dict_get xs k' 0} \<subseteq> fst ` set xs"
      by (auto simp: dict_get_def split: option.splits dest: map_of_SomeD intro: rev_image_eqI)
    show "finite (fst ` set xs)" by simp
  qed
  have set_eq: "{k'. 0 < dict_get ((k, v) # xs) k' 0}
      = (if 0 < v then insert k {k'. 0 < dict_get xs k' 0} else {k'. 0 < dict_get xs k' 0})"
    using k0 by (auto simp: dict_get_def split: if_splits)
  have notin: "k \<notin> {k'. 0 < dict_get xs k' 0}" using k0 by simp
  have "card {k'. 0 < dict_get ((k, v) # xs) k' 0}
      = (if 0 < v then Suc (card {k'. 0 < dict_get xs k' 0}) else card {k'. 0 < dict_get xs k' 0})"
    unfolding set_eq using card_insert_disjoint [OF fin notin] by (simp only: if_distrib [of card])
  then show ?case
    using Cons.IH [OF dx] by (simp add: p)
qed

lemma summarize_entries:
  assumes "(grp, members) \<in> set (summarize ch)" "(member, data) \<in> set members"
  shows "\<exists>ms st. (grp, ms) \<in> set ch \<and> (member, st) \<in> set ms \<and> data = summarize_author st"
  using assms unfolding summarize_def by fastforce

lemma distinct_keys_entries:
  assumes "distinct_keys ch" "(grp, ms) \<in> set ch" "(member, st) \<in> set ms"
  shows "distinct (map fst (daily_commits st))"
  using assms by (auto simp: distinct_keys_def list_all_iff distinct_counters_def)

lemma dt_le_refl: "dt_le a a" by (simp add: dt_le_def)
lemma dt_lt_irrefl: "\<not> dt_lt a a" by (simp add: dt_lt_def)



section \<open>Properties of the balance indicators\<close>

lemma py_max_Max: "xs \<noteq> [] \<Longrightarrow> py_max xs = Inr (Max (set xs))"
proof (cases xs)
  case Nil
  assume "xs \<noteq> []"
  with Nil show ?thesis by simp
next
  case (Cons x rest)
  have "Max (set (x # rest)) = fold max rest x" by (rule Max.set_eq_fold)
  then show ?thesis by (simp add: py_max_def Cons)
qed

lemma dominant_loop_first:
  assumes "m \<in> set (map (\<lambda>(mem, v). total_commits v) members)"
  shows "\<exists>i<length members.
           dominant_loop fl m t members =
             Some \<lparr>dominant_ratio = truediv fl m t, dominant_member = Some (fst (members ! i))\<rparr>
         \<and> total_commits (snd (members ! i)) = m
         \<and> (\<forall>j<i. total_commits (snd (members ! j)) \<noteq> m)"
  using assms
proof (induction members)
  case Nil
  then show ?case by simp
next
  case (Cons p members)
  obtain mem v where p: "p = (mem, v)" by (cases p)
  show ?case
  proof (cases "total_commits v = m")
    case True
    then have "dominant_loop fl m t (p # members) =
             Some \<lparr>dominant_ratio = truediv fl m t, dominant_member = Some (fst ((p # members) ! 0))\<rparr>
         \<and> total_commits (snd ((p # members) ! 0)) = m
         \<and> (\<forall>j<0. total_commits (snd ((p # members) ! j)) \<noteq> m)"
      by (simp add: p)
    then show ?thesis by blast
  next
    case False
    with Cons.prems p have "m \<in> set (map (\<lambda>(mem, v). total_commits v) members)" by auto
    from Cons.IH [OF this] obtain i where i: "i < length members"
      and d: "dominant_loop fl m t members =
             Some \<lparr>dominant_ratio = truediv fl m t, dominant_member = Some (fst (members ! i))\<rparr>"
      and e: "total_commits (snd (members ! i)) = m"
      and f: "\<forall>j<i. total_commits (snd (members ! j)) \<noteq> m"
      by blast
    have "Suc i < length (p # members)" using i by simp
    moreover have "dominant_loop fl m t (p # members) =
             Some \<lparr>dominant_ratio = truediv fl m t, dominant_member = Some (fst ((p # members) ! Suc i))\<rparr>"
      using False d by (simp add: p)
    moreover have "total_commits (snd ((p # members) ! Suc i)) = m" using e by simp
    moreover have "\<forall>j<Suc i. total_commits (snd ((p # members) ! j)) \<noteq> m"
    proof (intro allI impI)
      fix j assume "j < Suc i"
      then show "total_commits (snd ((p # members) ! j)) \<noteq> m"
        using False f by (cases j) (simp_all add: p)
    qed
    ultimately show ?thesis by blast
  qed
qed

lemma group_balance_zero:
  "sum_list (map (\<lambda>(mem, v). total_commits v) members) = 0 \<Longrightarrow>
   group_balance fl members = Inr (Some \<lparr>dominant_ratio = 0, dominant_member = None\<rparr>)"
  by (simp add: group_balance_def)

lemma group_balance_positive:
  assumes pos: "0 < sum_list (map (\<lambda>(mem, v). total_commits v) members)"
  shows "\<exists>i<length members.
           group_balance fl members =
             Inr (Some \<lparr>dominant_ratio =
                          truediv fl (total_commits (snd (members ! i)))
                            (sum_list (map (\<lambda>(mem, v). total_commits v) members)),
                        dominant_member = Some (fst (members ! i))\<rparr>)
         \<and> (\<forall>j<length members. total_commits (snd (members ! j)) \<le> total_commits (snd (members ! i)))
         \<and> (\<forall>j<i. total_commits (snd (members ! j)) < total_commits (snd (members ! i)))"
proof -
  let ?xs = "map (\<lambda>(mem, v). total_commits v) members"
  let ?t = "sum_list ?xs"
  have ne: "?xs \<noteq> []" using pos by auto
  let ?m = "Max (set ?xs)"
  have mx: "py_max ?xs = Inr ?m" using ne by (rule py_max_Max)
  have "?m \<in> set ?xs" using ne by (intro Max_in) simp_all
  from dominant_loop_first [OF this, of fl ?t] obtain i where i: "i < length members"
    and d: "dominant_loop fl ?m ?t members =
             Some \<lparr>dominant_ratio = truediv fl ?m ?t, dominant_member = Some (fst (members ! i))\<rparr>"
    and e: "total_commits (snd (members ! i)) = ?m"
    and f: "\<forall>j<i. total_commits (snd (members ! j)) \<noteq> ?m"
    by blast
  have le: "total_commits (snd (members ! j)) \<le> ?m" if "j < length members" for j
  proof -
    have "?xs ! j \<in> set ?xs" using that by (intro nth_mem) simp
    moreover have "?xs ! j = total_commits (snd (members ! j))"
      using that by (simp add: case_prod_unfold)
    ultimately show ?thesis by (metis Max_ge List.finite_set)
  qed
  have "group_balance fl members =
             Inr (Some \<lparr>dominant_ratio = truediv fl (total_commits (snd (members ! i))) ?t,
                        dominant_member = Some (fst (members ! i))\<rparr>)"
    using pos mx d e by (simp add: group_balance_def)
  moreover have "\<forall>j<length members. total_commits (snd (members ! j)) \<le> total_commits (snd (members ! i))"
    using le e by simp
  moreover have "\<forall>j<i. total_commits (snd (members ! j)) < total_commits (snd (members ! i))"
  proof (intro allI impI)
    fix j assume j: "j < i"
    then have "j < length members" using i by simp
    then have "total_commits (snd (members ! j)) \<le> ?m" by (rule le)
    moreover have "total_commits (snd (members ! j)) \<noteq> ?m" using f j by blast
    ultimately show "total_commits (snd (members ! j)) < total_commits (snd (members ! i))"
      using e by simp
  qed
  ultimately show ?thesis using i by blast
qed

lemma group_balance_assigns:
  "\<exists>indicator. group_balance fl members = Inr (Some indicator)"
proof (cases "0 < sum_list (map (\<lambda>(mem, v). total_commits v) members)")
  case True
  from group_balance_positive [OF this, of fl] show ?thesis by blast
next
  case False
  then show ?thesis by (simp add: group_balance_def)
qed

lemma balance_loop_lookup:
  assumes "distinct (map fst data)"
  shows "\<exists>balance. balance_loop fl data balance0 = Inr balance
         \<and> (\<forall>grp members. (grp, members) \<in> set data \<longrightarrow>
                map_option (\<lambda>indicator. Inr (Some indicator)) (map_of balance grp)
                  = Some (group_balance fl members))
         \<and> (\<forall>grp. grp \<notin> fst ` set data \<longrightarrow> map_of balance grp = map_of balance0 grp)"
  using assms
proof (induction data arbitrary: balance0)
  case Nil
  then show ?case by simp
next
  case (Cons p data)
  obtain g ms where p: "p = (g, ms)" by (cases p)
  obtain ind where ind: "group_balance fl ms = Inr (Some ind)"
    using group_balance_assigns by blast
  from Cons.prems p have dist: "distinct (map fst data)" and gn: "g \<notin> fst ` set data" by auto
  from Cons.IH [OF dist, of "AList.update g ind balance0"] obtain balance where
    b: "balance_loop fl data (AList.update g ind balance0) = Inr balance"
    and l: "\<forall>grp members. (grp, members) \<in> set data \<longrightarrow>
                map_option (\<lambda>indicator. Inr (Some indicator)) (map_of balance grp)
                  = Some (group_balance fl members)"
    and k: "\<forall>grp. grp \<notin> fst ` set data \<longrightarrow> map_of balance grp = map_of (AList.update g ind balance0) grp"
    by blast
  have 1: "balance_loop fl (p # data) balance0 = Inr balance"
    using b ind by (simp add: p)
  have g: "map_of balance g = Some ind" using k gn by (simp add: update_conv')
  have 2: "\<forall>grp members. (grp, members) \<in> set (p # data) \<longrightarrow>
                map_option (\<lambda>indicator. Inr (Some indicator)) (map_of balance grp)
                  = Some (group_balance fl members)"
    using l g ind by (auto simp: p)
  have 3: "\<forall>grp. grp \<notin> fst ` set (p # data) \<longrightarrow> map_of balance grp = map_of balance0 grp"
    using k by (auto simp: p update_conv')
  from 1 2 3 show ?case by blast
qed

lemma member_le_sum_list_int:
  fixes xs :: "int list"
  assumes "\<forall>x\<in>set xs. 0 \<le> x" "x \<in> set xs"
  shows "x \<le> sum_list xs"
  using assms
proof (induction xs)
  case Nil
  then show ?case by simp
next
  case (Cons y ys)
  have "0 \<le> sum_list ys" using Cons.prems(1) by (intro sum_list_nonneg) simp
  moreover have "0 \<le> y" using Cons.prems(1) by simp
  ultimately show ?case using Cons by (cases "x = y") (auto simp: add_increasing)
qed

lemma truediv_range:
  assumes r: "rounding fl" and a: "0 \<le> a" and ab: "a \<le> b" and b: "0 < b"
  shows "0 \<le> truediv fl a b \<and> truediv fl a b \<le> 1"
proof -
  have q0: "(0::rat) \<le> of_int a / of_int b" using a b by simp
  have q1: "of_int a / of_int b \<le> (1::rat)" using ab b by simp
  from r have mono: "\<And>x y. x \<le> y \<Longrightarrow> fl x \<le> fl y" and z: "fl 0 = 0" and o: "fl 1 = 1"
    by (simp_all add: rounding_def)
  from mono [OF q0] mono [OF q1] show ?thesis by (simp add: truediv_def z o)
qed

lemma balance_lookup_Some:
  assumes "map_option (\<lambda>indicator. Inr (Some indicator)) (map_of balance grp)
             = Some (group_balance fl members)"
    and "group_balance fl members = Inr (Some x)"
  shows "map_of balance grp = Some x"
  using assms by (cases "map_of balance grp") simp_all

section \<open>Properties of a run\<close>

lemma folders_loop_writes:
  "\<exists>files'. Written files' \<in> set (folders_loop lower folders date_list s e ex am f files)"
proof (induction folders arbitrary: files)
  case Nil
  show ?case by simp
next
  case (Cons p folders)
  obtain name git_dirs where p: "p = (name, git_dirs)" by (cases p)
  show ?case
  proof (cases git_dirs)
    case Nil
    with Cons [of files] show ?thesis by (simp add: p)
  next
    case (Cons repo rest)
    show ?thesis
    proof (cases "map_of (collect_changes_by_group lower repo name ex s e am f) name")
      case None
      with Cons.IH [of files] \<open>git_dirs = repo # rest\<close> show ?thesis
        by (auto simp: p)
    next
      case (Some sub_dict)
      with Cons.IH [of "fold (write_member date_list name) sub_dict files"]
        \<open>git_dirs = repo # rest\<close> show ?thesis
        by (auto simp: p)
    qed
  qed
qed
section \<open>The alias resolver\<close>

text \<open>
  Claim C4. For every raw name, group label and alias table, \<open>map_alias_to_name\<close>
  returns the entry of the group's own table for the normalized name when there is one
  (whatever the table under \<^verbatim>\<open>"global"\<close> holds for that name); otherwise the entry of
  the \<^verbatim>\<open>"global"\<close> table when there is one; otherwise the normalized name itself. The
  normalized name is the name trimmed and then lower-cased by \<^verbatim>\<open>str.lower\<close>, whatever
  that function does. The model is a total function: on every table it returns a name.
\<close>

theorem map_alias_to_name_lookup_order:
  fixes t :: alias_mapping and n g :: str and lower :: "str \<Rightarrow> str"
  defines "own \<equiv> (case t g of None \<Rightarrow> None | Some d \<Rightarrow> d (lower (strip n)))"
      and "glob \<equiv> (case t (str_of ''global'') of None \<Rightarrow> None | Some d \<Rightarrow> d (lower (strip n)))"
  shows "(\<forall>v. own = Some v \<longrightarrow> map_alias_to_name lower n g t = v)
       \<and> (\<forall>v. own = None \<and> glob = Some v \<longrightarrow> map_alias_to_name lower n g t = v)
       \<and> (own = None \<and> glob = None \<longrightarrow> map_alias_to_name lower n g t = lower (strip n))"
  unfolding own_def glob_def map_alias_to_name_def in_group_dict_def Let_def
  by (auto split: option.splits)

text \<open>
  The three cases on a table with both a group entry and a global entry for
  \<^verbatim>\<open>user1\<close>, on one with a global entry only, and on one with neither.
\<close>

theorem map_alias_to_name_lookup_order_witness:
  "map_alias_to_name ascii_lower (str_of '' User1 '') (str_of ''group1'')
     [str_of ''group1'' \<mapsto> [str_of ''user1'' \<mapsto> str_of ''User One''],
      str_of ''global'' \<mapsto> [str_of ''user1'' \<mapsto> str_of ''Somebody'']]
     = str_of ''User One''
   \<and> map_alias_to_name ascii_lower (str_of ''User2'') (str_of ''group1'')
     [str_of ''group1'' \<mapsto> [str_of ''user1'' \<mapsto> str_of ''User One''],
      str_of ''global'' \<mapsto> [str_of ''user2'' \<mapsto> str_of ''User Two'']]
     = str_of ''User Two''
   \<and> map_alias_to_name ascii_lower (str_of ''UserX'') (str_of ''group1'')
     [str_of ''group1'' \<mapsto> Map.empty, str_of ''global'' \<mapsto> Map.empty]
     = str_of ''userx''"
proof -
  let ?t1 = "[str_of ''group1'' \<mapsto> [str_of ''user1'' \<mapsto> str_of ''User One''],
              str_of ''global'' \<mapsto> [str_of ''user1'' \<mapsto> str_of ''Somebody'']]"
  let ?t2 = "[str_of ''group1'' \<mapsto> [str_of ''user1'' \<mapsto> str_of ''User One''],
              str_of ''global'' \<mapsto> [str_of ''user2'' \<mapsto> str_of ''User Two'']]"
  let ?t3 = "[str_of ''group1'' \<mapsto> Map.empty, str_of ''global'' \<mapsto> Map.empty] :: alias_mapping"
  have own1: "(case ?t1 (str_of ''group1'') of None \<Rightarrow> None
                | Some d \<Rightarrow> d (ascii_lower (strip (str_of '' User1 '')))) = Some (str_of ''User One'')"
    by code_simp
  have own2: "(case ?t2 (str_of ''group1'') of None \<Rightarrow> None
                | Some d \<Rightarrow> d (ascii_lower (strip (str_of ''User2'')))) = None"
    by code_simp
  have glob2: "(case ?t2 (str_of ''global'') of None \<Rightarrow> None
                | Some d \<Rightarrow> d (ascii_lower (strip (str_of ''User2'')))) = Some (str_of ''User Two'')"
    by code_simp
  have own3: "(case ?t3 (str_of ''group1'') of None \<Rightarrow> None
                | Some d \<Rightarrow> d (ascii_lower (strip (str_of ''UserX'')))) = None"
    by code_simp
  have glob3: "(case ?t3 (str_of ''global'') of None \<Rightarrow> None
                | Some d \<Rightarrow> d (ascii_lower (strip (str_of ''UserX'')))) = None"
    by code_simp
  have n3: "ascii_lower (strip (str_of ''UserX'')) = str_of ''userx''" by code_simp
  have 1: "map_alias_to_name ascii_lower (str_of '' User1 '') (str_of ''group1'') ?t1 = str_of ''User One''"
    using map_alias_to_name_lookup_order [where lower = ascii_lower and n = "str_of '' User1 ''"
        and g = "str_of ''group1''" and t = ?t1] own1
    by blast
  have 2: "map_alias_to_name ascii_lower (str_of ''User2'') (str_of ''group1'') ?t2 = str_of ''User Two''"
    using map_alias_to_name_lookup_order [where lower = ascii_lower and n = "str_of ''User2''"
        and g = "str_of ''group1''" and t = ?t2] own2 glob2
    by blast
  have 3: "map_alias_to_name ascii_lower (str_of ''UserX'') (str_of ''group1'') ?t3 = str_of ''userx''"
    using map_alias_to_name_lookup_order [where lower = ascii_lower and n = "str_of ''UserX''"
        and g = "str_of ''group1''" and t = ?t3] own3 glob3 n3
    by metis
  from 1 2 3 show ?thesis by blast
qed

text \<open>
  Claim C5. Resolving a name gives the same result as resolving the name already
  lower-cased and trimmed, \<open>map_alias_to_name n g t = map_alias_to_name (strip (lower n)) g t\<close>,
  for every \<^verbatim>\<open>str.lower\<close> that is idempotent and commutes with \<^verbatim>\<open>strip\<close>.
\<close>

theorem map_alias_to_name_normalized:
  assumes "lower_idempotent lower" and "lower_commutes_with_strip lower"
  shows "map_alias_to_name lower n g t = map_alias_to_name lower (strip (lower n)) g t"
  by (simp add: map_alias_to_name_def normalize_idem [OF assms])

text \<open>Lower-casing ASCII letters has both properties.\<close>

theorem map_alias_to_name_normalized_witness:
  "lower_idempotent ascii_lower \<and> lower_commutes_with_strip ascii_lower
   \<and> strip (ascii_lower (str_of '' User1 '')) = str_of ''user1''
   \<and> map_alias_to_name ascii_lower (str_of '' User1 '') (str_of ''group1'')
        [str_of ''group1'' \<mapsto> [str_of ''user1'' \<mapsto> str_of ''User One'']]
      = map_alias_to_name ascii_lower (str_of ''user1'') (str_of ''group1'')
        [str_of ''group1'' \<mapsto> [str_of ''user1'' \<mapsto> str_of ''User One'']]"
proof -
  have n: "strip (ascii_lower (str_of '' User1 '')) = str_of ''user1''" by code_simp
  show ?thesis
    using map_alias_to_name_normalized [OF ascii_lower_idempotent ascii_lower_commutes_with_strip,
        of "str_of '' User1 ''" "str_of ''group1''"
        "[str_of ''group1'' \<mapsto> [str_of ''user1'' \<mapsto> str_of ''User One'']]"]
      ascii_lower_idempotent ascii_lower_commutes_with_strip
    by (simp add: n)
qed

section \<open>The commit aggregator\<close>

text \<open>
  Claim C1. After every run of \<open>collect_changes_by_group\<close>, for every group and author
  of the dictionary it returns, the total of insertions is the sum of the insertions of
  the days, the total of deletions is the sum of the deletions of the days, and the
  active days are as many as the days whose count of commits is at least 1.
\<close>

theorem totals_are_derived:
  "\<forall>(grp, members) \<in> set (collect_changes_by_group lower repo g ex s e am f).
     \<forall>(member, data) \<in> set members.
       insertions data = sum_list (map snd (daily_insertions data))
     \<and> deletions data = sum_list (map snd (daily_deletions data))
     \<and> active_days data = int (length (filter (\<lambda>(day, count). 1 \<le> count) (daily_commits data)))
     \<and> active_days data = int (card {day. 1 \<le> dict_get (daily_commits data) day 0})"
proof (cases repo)
  case NoGitDir
  then show ?thesis by (simp add: collect_changes_by_group_def)
next
  case OpenFails
  then show ?thesis by (simp add: collect_changes_by_group_def)
next
  case (Repo bs)
  define sc where "sc = \<lparr>str_lower = lower, group_label = g, excluded = ex, start_date = s,
     end_date = e, alias_mapping_by_group = am, map_alias_func = f\<rparr>"
  define ch where "ch = branches_loop sc bs []"
  have res: "collect_changes_by_group lower repo g ex s e am f = summarize ch"
    by (simp add: Repo collect_changes_by_group_def sc_def ch_def)
  have dk: "distinct_keys ch"
    unfolding ch_def by (rule distinct_keys_branches_loop) (rule distinct_keys_Nil)
  have one: "(\<lambda>(day, count). 1 \<le> count) = (\<lambda>(day, count :: int). 0 < count)"
    by (auto simp: fun_eq_iff)
  have one': "\<And>xs. {day. 1 \<le> dict_get xs day (0::int)} = {day. 0 < dict_get xs day 0}"
    by auto
  show ?thesis
    unfolding res
  proof (clarify)
    fix grp members member data
    assume "(grp, members) \<in> set (summarize ch)" "(member, data) \<in> set members"
    then obtain ms st where m: "(grp, ms) \<in> set ch" "(member, st) \<in> set ms"
      and d: "data = summarize_author st"
      using summarize_entries by blast
    have "distinct (map fst (daily_commits st))" using dk m by (rule distinct_keys_entries)
    then have "length (filter (\<lambda>(k, c). 0 < c) (daily_commits st))
        = card {k. 0 < dict_get (daily_commits st) k 0}"
      by (rule count_positive_card)
    then show "insertions data = sum_list (map snd (daily_insertions data))
     \<and> deletions data = sum_list (map snd (daily_deletions data))
     \<and> active_days data = int (length (filter (\<lambda>(day, count). 1 \<le> count) (daily_commits data)))
     \<and> active_days data = int (card {day. 1 \<le> dict_get (daily_commits data) day 0})"
      unfolding one one' by (simp add: d summarize_author_def)
  qed
qed

text \<open>
  One commit of \<^verbatim>\<open>"Alice "\<close> on 2025-02-03 with 10 insertions and 2 deletions.
\<close>

theorem totals_are_derived_witness:
  "collect_changes_by_group ascii_lower (Repo [Branch [eg_commit ''Alice '' 739285] False])
      (str_of ''group1'') [] (datetime_ymd 2025 2 1) (datetime_ymd 2025 2 10) Map.empty
      (map_alias_to_name ascii_lower)
     = [(str_of ''group1'', [(str_of ''alice'', eg_stats 739285 1)])]
   \<and> insertions (eg_stats 739285 1) = sum_list (map snd (daily_insertions (eg_stats 739285 1)))
   \<and> deletions (eg_stats 739285 1) = sum_list (map snd (daily_deletions (eg_stats 739285 1)))
   \<and> active_days (eg_stats 739285 1)
       = int (card {day. 1 \<le> dict_get (daily_commits (eg_stats 739285 1)) day 0})"
proof -
  have e: "collect_changes_by_group ascii_lower (Repo [Branch [eg_commit ''Alice '' 739285] False])
      (str_of ''group1'') [] (datetime_ymd 2025 2 1) (datetime_ymd 2025 2 10) Map.empty
      (map_alias_to_name ascii_lower)
     = [(str_of ''group1'', [(str_of ''alice'', eg_stats 739285 1)])]"
    by code_simp
  show ?thesis
    using totals_are_derived [of ascii_lower "Repo [Branch [eg_commit ''Alice '' 739285] False]"
        "str_of ''group1''" "[]" "datetime_ymd 2025 2 1" "datetime_ymd 2025 2 10" Map.empty
        "map_alias_to_name ascii_lower"]
    unfolding e by simp
qed

text \<open>
  Claim C2, amended. A commit outside the window \<open>start_date \<le> date < end_date\<close> is never
  counted and leaves the dictionary as it is. A commit whose author is not excluded and
  whose statistics can be read is counted if and only if its date is in the window; such a
  commit dated exactly \<open>start_date\<close> is counted when the window is not empty. A commit
  dated exactly \<open>end_date\<close> is not counted.
\<close>

theorem window_is_half_open:
  "(\<not> in_window sc c \<longrightarrow> visit sc c ch = Some ch \<and> \<not> counted sc c ch)
   \<and> (\<not> is_excluded sc c \<and> stats_total c \<noteq> None \<longrightarrow>
        (counted sc c ch \<longleftrightarrow>
           dt_le (start_date sc) (committed_date c) \<and> dt_lt (committed_date c) (end_date sc))
        \<and> (committed_date c = start_date sc \<and> dt_lt (start_date sc) (end_date sc)
             \<longrightarrow> counted sc c ch))
   \<and> (committed_date c = end_date sc \<longrightarrow> \<not> counted sc c ch)"
  by (auto simp: counted_iff in_window_def dt_le_refl dt_lt_irrefl visit_eq)

theorem window_is_half_open_witness:
  "\<not> is_excluded (eg_scope [str_of ''Teacher'']) (eg_commit ''Alice'' 739283)
   \<and> stats_total (eg_commit ''Alice'' 739283) \<noteq> None
   \<and> committed_date (eg_commit ''Alice'' 739283) = start_date (eg_scope [str_of ''Teacher''])
   \<and> counted (eg_scope [str_of ''Teacher'']) (eg_commit ''Alice'' 739283) []
   \<and> committed_date (eg_commit ''Alice'' 739292) = end_date (eg_scope [str_of ''Teacher''])
   \<and> \<not> counted (eg_scope [str_of ''Teacher'']) (eg_commit ''Alice'' 739292) []
   \<and> \<not> in_window (eg_scope [str_of ''Teacher'']) (eg_commit ''Alice'' 739282)
   \<and> visit (eg_scope [str_of ''Teacher'']) (eg_commit ''Alice'' 739282) [] = Some []"
proof -
  let ?sc = "eg_scope [str_of ''Teacher'']"
  have a: "\<not> is_excluded ?sc (eg_commit ''Alice'' 739283)" by code_simp
  have b: "stats_total (eg_commit ''Alice'' 739283) \<noteq> None" by code_simp
  have c: "committed_date (eg_commit ''Alice'' 739283) = start_date ?sc" by code_simp
  have d: "dt_lt (start_date ?sc) (end_date ?sc)" by code_simp
  have e: "committed_date (eg_commit ''Alice'' 739292) = end_date ?sc" by code_simp
  have f: "\<not> in_window ?sc (eg_commit ''Alice'' 739282)" by code_simp
  have 1: "counted ?sc (eg_commit ''Alice'' 739283) []"
    using window_is_half_open [of ?sc "eg_commit ''Alice'' 739283" "[]"] a b c d by blast
  have 2: "\<not> counted ?sc (eg_commit ''Alice'' 739292) []"
    using window_is_half_open [of ?sc "eg_commit ''Alice'' 739292" "[]"] e by blast
  have 3: "visit ?sc (eg_commit ''Alice'' 739282) [] = Some []"
    using window_is_half_open [of ?sc "eg_commit ''Alice'' 739282" "[]"] f by blast
  from a b c e f 1 2 3 show ?thesis by blast
qed

text \<open>
  Claim C2 as stated, that a visited commit is counted if and only if its date is in the
  window, fails on a commit in the window whose author is excluded.
\<close>

theorem window_not_iff_counted:
  "\<not> (counted (eg_scope [str_of ''Teacher'']) (eg_commit ''teacher'' 739285) [] \<longleftrightarrow>
        dt_le (start_date (eg_scope [str_of ''Teacher'']))
          (committed_date (eg_commit ''teacher'' 739285))
        \<and> dt_lt (committed_date (eg_commit ''teacher'' 739285))
            (end_date (eg_scope [str_of ''Teacher''])))"
  by code_simp





text \<open>
  Claim C8, amended. If the traversal of one branch fails, the commits of that branch
  visited before the failure stay counted, the rest of the branch is skipped and the
  other branches are processed as usual: the dictionary is the one of the same
  repository with the failed branch cut before the failing commit, a branch that does not
  fail. In particular, when no commit before the failure is counted, the dictionary is the
  one of the repository without that branch.
\<close>

theorem branch_failure_is_local:
  assumes "branch_fails sc b"
  shows "branches_loop sc (bs1 @ b # bs2) ch =
           branches_loop sc
             (bs1 @ Branch (takeWhile (\<lambda>c. \<not> visit_raises sc c) (yields b)) False # bs2) ch
       \<and> \<not> branch_fails sc (Branch (takeWhile (\<lambda>c. \<not> visit_raises sc c) (yields b)) False)
       \<and> (list_all (\<lambda>c. \<not> counted sc c []) (takeWhile (\<lambda>c. \<not> visit_raises sc c) (yields b))
            \<longrightarrow> branches_loop sc (bs1 @ b # bs2) ch = branches_loop sc (bs1 @ bs2) ch)"
proof -
  let ?pre = "takeWhile (\<lambda>c. \<not> visit_raises sc c) (yields b)"
  let ?ch1 = "branches_loop sc bs1 ch"
  have pre: "fst (commits_loop sc (yields b) (iter_raises b) ?ch1) = fst (commits_loop sc ?pre False ?ch1)"
    by (subst commits_loop_raises) simp
  have 1: "branches_loop sc (bs1 @ b # bs2) ch = branches_loop sc (bs1 @ Branch ?pre False # bs2) ch"
    by (simp add: branches_loop_one pre)
  have ok: "list_all (\<lambda>c. \<not> visit_raises sc c) ?pre"
    by (auto simp: list_all_iff dest: set_takeWhileD)
  then have 2: "\<not> branch_fails sc (Branch ?pre False)"
    by (simp add: branch_fails_iff list_all_iff)
  have 3: "branches_loop sc (bs1 @ b # bs2) ch = branches_loop sc (bs1 @ bs2) ch"
    if "list_all (\<lambda>c. \<not> counted sc c []) ?pre"
  proof -
    from ok that have "list_all (\<lambda>c. \<not> visit_raises sc c \<and> \<not> counted sc c []) ?pre"
      by (simp add: list_all_iff)
    then have "fst (commits_loop sc ?pre False ?ch1) = ?ch1" by (rule commits_loop_none_counted)
    then show ?thesis by (simp add: branches_loop_one pre branches_loop_append)
  qed
  from 1 2 3 show ?thesis by blast
qed

text \<open>
  Between two branches of another author, a branch whose second commit cannot be read
  counts as its first commit alone, and a branch whose first commit cannot be read
  counts as no branch.
\<close>

theorem branch_failure_is_local_witness:
  "branch_fails (eg_scope [])
     (Branch [eg_commit ''Alice'' 739285, eg_unreadable ''Alice'' 739284,
              eg_commit ''Alice'' 739283] False)
   \<and> branches_loop (eg_scope [])
       ([Branch [eg_commit ''Bob'' 739285] False]
          @ Branch [eg_commit ''Alice'' 739285, eg_unreadable ''Alice'' 739284,
                    eg_commit ''Alice'' 739283] False
          # [Branch [eg_commit ''Bob'' 739286] False]) []
     = branches_loop (eg_scope [])
       ([Branch [eg_commit ''Bob'' 739285] False]
          @ Branch [eg_commit ''Alice'' 739285] False
          # [Branch [eg_commit ''Bob'' 739286] False]) []
   \<and> branch_fails (eg_scope [])
       (Branch [eg_unreadable ''Alice'' 739284, eg_commit ''Alice'' 739283] False)
   \<and> branches_loop (eg_scope [])
       ([Branch [eg_commit ''Bob'' 739285] False]
          @ Branch [eg_unreadable ''Alice'' 739284, eg_commit ''Alice'' 739283] False
          # [Branch [eg_commit ''Bob'' 739286] False]) []
     = branches_loop (eg_scope [])
       ([Branch [eg_commit ''Bob'' 739285] False] @ [Branch [eg_commit ''Bob'' 739286] False]) []"
proof -
  let ?b = "Branch [eg_commit ''Alice'' 739285, eg_unreadable ''Alice'' 739284,
                    eg_commit ''Alice'' 739283] False"
  let ?b' = "Branch [eg_unreadable ''Alice'' 739284, eg_commit ''Alice'' 739283] False"
  let ?bs1 = "[Branch [eg_commit ''Bob'' 739285] False]"
  let ?bs2 = "[Branch [eg_commit ''Bob'' 739286] False]"
  have f: "branch_fails (eg_scope []) ?b" by code_simp
  have f': "branch_fails (eg_scope []) ?b'" by code_simp
  have t: "takeWhile (\<lambda>c. \<not> visit_raises (eg_scope []) c) (yields ?b) = [eg_commit ''Alice'' 739285]"
    by code_simp
  have t': "takeWhile (\<lambda>c. \<not> visit_raises (eg_scope []) c) (yields ?b') = []"
    by code_simp
  have 1: "branches_loop (eg_scope []) (?bs1 @ ?b # ?bs2) []
         = branches_loop (eg_scope []) (?bs1 @ Branch [eg_commit ''Alice'' 739285] False # ?bs2) []"
    using branch_failure_is_local [OF f, of ?bs1 ?bs2 "[]"] unfolding t by blast
  have "list_all (\<lambda>c. \<not> counted (eg_scope []) c [])
          (takeWhile (\<lambda>c. \<not> visit_raises (eg_scope []) c) (yields ?b'))"
    unfolding t' by simp
  then have 2: "branches_loop (eg_scope []) (?bs1 @ ?b' # ?bs2) []
         = branches_loop (eg_scope []) (?bs1 @ ?bs2) []"
    using branch_failure_is_local [OF f', of ?bs1 ?bs2 "[]"] by blast
  from f f' 1 2 show ?thesis by blast
qed

text \<open>
  Claim C8 as stated, that the commits of a failed branch contribute nothing, fails: a
  branch whose second commit cannot be read has failed, and its first commit is in the
  dictionary returned, which is not the dictionary of the repository without the branch.
\<close>

theorem failed_branch_keeps_earlier_commits:
  "branch_fails (eg_scope [])
     (Branch [eg_commit ''Alice'' 739285, eg_unreadable ''Alice'' 739284] False)
   \<and> collect_changes_by_group ascii_lower
        (Repo [Branch [eg_commit ''Alice'' 739285, eg_unreadable ''Alice'' 739284] False])
        (str_of ''group1'') [] (datetime_ymd 2025 2 1) (datetime_ymd 2025 2 10) Map.empty
        (map_alias_to_name ascii_lower)
      = [(str_of ''group1'', [(str_of ''alice'', eg_stats 739285 1)])]
   \<and> collect_changes_by_group ascii_lower (Repo [])
        (str_of ''group1'') [] (datetime_ymd 2025 2 1) (datetime_ymd 2025 2 10) Map.empty
        (map_alias_to_name ascii_lower)
      = []"
  by code_simp



text \<open>
  Claim C10. The author's name is trimmed and lower-cased, the entries of the exclusion
  list are only lower-cased. So an entry with white space at one of its ends equals no
  normalized name, the result of \<open>collect_changes_by_group\<close> is the same with such
  entries removed from the list, and when every entry is such an entry, a commit in the
  window whose statistics can be read is counted, whoever its author. This holds for any
  \<^verbatim>\<open>str.lower\<close> with the two laws on white space.
\<close>

theorem untrimmed_exclusion_entry_matches_nothing:
  assumes "lower_commutes_with_strip lower" and "lower_keeps_white_space lower"
  shows "(strip entry \<noteq> entry \<longrightarrow> lower (strip name) \<noteq> lower entry)
   \<and> collect_changes_by_group lower repo g ex s e am f
       = collect_changes_by_group lower repo g (filter (\<lambda>entry. strip entry = entry) ex) s e am f
   \<and> (str_lower sc = lower \<and> list_all (\<lambda>entry. strip entry \<noteq> entry) (excluded sc)
        \<and> in_window sc c \<and> stats_total c \<noteq> None \<longrightarrow> counted sc c ch)"
proof -
  have 1: "strip entry \<noteq> entry \<longrightarrow> lower (strip name) \<noteq> lower entry"
    using normalized_eq_imp_trimmed [OF assms] by blast
  let ?sc = "\<lparr>str_lower = lower, group_label = g, excluded = ex, start_date = s, end_date = e,
     alias_mapping_by_group = am, map_alias_func = f\<rparr>"
  have l: "lower_commutes_with_strip (str_lower ?sc)" "lower_keeps_white_space (str_lower ?sc)"
    using assms by simp_all
  have "branches_loop (?sc\<lparr>excluded := filter (\<lambda>entry. strip entry = entry) (excluded ?sc)\<rparr>) bs []
      = branches_loop ?sc bs []" for bs
    by (rule branches_loop_cong) (rule visit_trimmed [OF l])
  then have 2: "collect_changes_by_group lower repo g ex s e am f
       = collect_changes_by_group lower repo g (filter (\<lambda>entry. strip entry = entry) ex) s e am f"
    by (cases repo) (simp_all add: collect_changes_by_group_def)
  have 3: "str_lower sc = lower \<and> list_all (\<lambda>entry. strip entry \<noteq> entry) (excluded sc)
        \<and> in_window sc c \<and> stats_total c \<noteq> None \<longrightarrow> counted sc c ch"
    using normalized_eq_imp_trimmed [OF assms]
    by (auto simp: counted_iff is_excluded_def list_all_iff)
  from 1 2 3 show ?thesis by blast
qed

text \<open>
  The entry \<^verbatim>\<open>"Teacher "\<close> does not exclude the author \<^verbatim>\<open>Teacher\<close>.
\<close>

theorem untrimmed_exclusion_entry_matches_nothing_witness:
  "lower_commutes_with_strip ascii_lower \<and> lower_keeps_white_space ascii_lower
   \<and> strip (str_of ''Teacher '') \<noteq> str_of ''Teacher ''
   \<and> ascii_lower (strip (str_of ''Teacher'')) \<noteq> ascii_lower (str_of ''Teacher '')
   \<and> list_all (\<lambda>entry. strip entry \<noteq> entry) (excluded (eg_scope [str_of ''Teacher '']))
   \<and> in_window (eg_scope [str_of ''Teacher '']) (eg_commit ''Teacher'' 739285)
   \<and> stats_total (eg_commit ''Teacher'' 739285) \<noteq> None
   \<and> counted (eg_scope [str_of ''Teacher '']) (eg_commit ''Teacher'' 739285) []"
proof -
  let ?sc = "eg_scope [str_of ''Teacher '']"
  have a: "strip (str_of ''Teacher '') \<noteq> str_of ''Teacher ''" by code_simp
  have b: "list_all (\<lambda>entry. strip entry \<noteq> entry) (excluded ?sc)" by code_simp
  have c: "in_window ?sc (eg_commit ''Teacher'' 739285)" by code_simp
  have d: "stats_total (eg_commit ''Teacher'' 739285) \<noteq> None" by code_simp
  have l: "str_lower ?sc = ascii_lower" by (simp add: eg_scope_def)
  note inst = untrimmed_exclusion_entry_matches_nothing
      [OF ascii_lower_commutes_with_strip ascii_lower_keeps_white_space,
       of "str_of ''Teacher ''" "str_of ''Teacher''" NoGitDir "[]" "[]"
        "datetime_ymd 2025 2 1" "datetime_ymd 2025 2 1" Map.empty "map_alias_to_name ascii_lower"
        ?sc "eg_commit ''Teacher'' 739285" "[]"]
  have 1: "ascii_lower (strip (str_of ''Teacher'')) \<noteq> ascii_lower (str_of ''Teacher '')"
    using inst a by blast
  have 2: "counted ?sc (eg_commit ''Teacher'' 739285) []"
    using inst l b c d by blast
  from ascii_lower_commutes_with_strip ascii_lower_keeps_white_space a b c d 1 2
  show ?thesis by blast
qed

section \<open>The balance indicators\<close>

text \<open>
  Claim C3. On every table of totals (a dictionary: no group occurs twice),
  \<open>calculate_balance_indicators\<close> returns, and in what it returns a group whose
  commits add up to zero has the ratio 0 and no dominant member, and a group whose
  commits add up to a positive number has as dominant member a member with the largest
  number of commits, the first such member of the group, with the ratio of that number
  to the total of the group; the ratio is between 0 and 1 when no member has a negative
  number of commits. The quotient is rounded to a float by \<open>fl\<close>, which keeps the order
  and leaves 0 and 1 as they are.
\<close>

theorem balance_indicators:
  assumes "distinct (map fst data)"
  shows "\<exists>balance. calculate_balance_indicators fl data = Inr balance \<and>
     (\<forall>(grp, members) \<in> set data.
        (sum_list (map (\<lambda>(mem, v). total_commits v) members) = 0 \<longrightarrow>
           map_of balance grp = Some \<lparr>dominant_ratio = 0, dominant_member = None\<rparr>)
      \<and> (0 < sum_list (map (\<lambda>(mem, v). total_commits v) members) \<longrightarrow>
           (\<exists>i<length members.
              map_of balance grp =
                Some \<lparr>dominant_ratio =
                        truediv fl (total_commits (snd (members ! i)))
                          (sum_list (map (\<lambda>(mem, v). total_commits v) members)),
                      dominant_member = Some (fst (members ! i))\<rparr>
            \<and> (\<forall>j<length members.
                  total_commits (snd (members ! j)) \<le> total_commits (snd (members ! i)))
            \<and> (\<forall>j<i. total_commits (snd (members ! j)) < total_commits (snd (members ! i)))
            \<and> (rounding fl \<and> (\<forall>(mem, v) \<in> set members. 0 \<le> total_commits v) \<longrightarrow>
                  0 \<le> truediv fl (total_commits (snd (members ! i)))
                         (sum_list (map (\<lambda>(mem, v). total_commits v) members))
                \<and> truediv fl (total_commits (snd (members ! i)))
                     (sum_list (map (\<lambda>(mem, v). total_commits v) members)) \<le> 1))))"
proof -
  from balance_loop_lookup [OF assms, of fl "[]"] obtain balance where
    b: "balance_loop fl data [] = Inr balance"
    and l: "\<And>grp members. (grp, members) \<in> set data \<Longrightarrow>
                map_option (\<lambda>indicator. Inr (Some indicator)) (map_of balance grp)
                  = Some (group_balance fl members)"
    by blast
  have "(sum_list (map (\<lambda>(mem, v). total_commits v) members) = 0 \<longrightarrow>
           map_of balance grp = Some \<lparr>dominant_ratio = 0, dominant_member = None\<rparr>)
      \<and> (0 < sum_list (map (\<lambda>(mem, v). total_commits v) members) \<longrightarrow>
           (\<exists>i<length members.
              map_of balance grp =
                Some \<lparr>dominant_ratio =
                        truediv fl (total_commits (snd (members ! i)))
                          (sum_list (map (\<lambda>(mem, v). total_commits v) members)),
                      dominant_member = Some (fst (members ! i))\<rparr>
            \<and> (\<forall>j<length members.
                  total_commits (snd (members ! j)) \<le> total_commits (snd (members ! i)))
            \<and> (\<forall>j<i. total_commits (snd (members ! j)) < total_commits (snd (members ! i)))
            \<and> (rounding fl \<and> (\<forall>(mem, v) \<in> set members. 0 \<le> total_commits v) \<longrightarrow>
                  0 \<le> truediv fl (total_commits (snd (members ! i)))
                         (sum_list (map (\<lambda>(mem, v). total_commits v) members))
                \<and> truediv fl (total_commits (snd (members ! i)))
                     (sum_list (map (\<lambda>(mem, v). total_commits v) members)) \<le> 1)))"
    if mem: "(grp, members) \<in> set data" for grp members
  proof (intro conjI impI)
    let ?xs = "map (\<lambda>(mem, v). total_commits v) members"
    assume "sum_list ?xs = 0"
    then have "group_balance fl members = Inr (Some \<lparr>dominant_ratio = 0, dominant_member = None\<rparr>)"
      by (rule group_balance_zero)
    with l [OF mem] show "map_of balance grp = Some \<lparr>dominant_ratio = 0, dominant_member = None\<rparr>"
      by (rule balance_lookup_Some)
  next
    let ?xs = "map (\<lambda>(mem, v). total_commits v) members"
    assume pos: "0 < sum_list ?xs"
    from group_balance_positive [OF pos, of fl] obtain i where i: "i < length members"
      and gb: "group_balance fl members =
             Inr (Some \<lparr>dominant_ratio = truediv fl (total_commits (snd (members ! i))) (sum_list ?xs),
                        dominant_member = Some (fst (members ! i))\<rparr>)"
      and mx: "\<forall>j<length members. total_commits (snd (members ! j)) \<le> total_commits (snd (members ! i))"
      and first: "\<forall>j<i. total_commits (snd (members ! j)) < total_commits (snd (members ! i))"
      by blast
    have lk: "map_of balance grp =
                Some \<lparr>dominant_ratio = truediv fl (total_commits (snd (members ! i))) (sum_list ?xs),
                      dominant_member = Some (fst (members ! i))\<rparr>"
      using l [OF mem] gb by (rule balance_lookup_Some)
    have range: "0 \<le> truediv fl (total_commits (snd (members ! i))) (sum_list ?xs)
                \<and> truediv fl (total_commits (snd (members ! i))) (sum_list ?xs) \<le> 1"
      if r: "rounding fl" and nn: "\<forall>(mem, v) \<in> set members. 0 \<le> total_commits v"
    proof -
      have xi: "?xs ! i = total_commits (snd (members ! i))"
        using i by (simp add: case_prod_unfold)
      have in_set: "?xs ! i \<in> set ?xs" using i by (intro nth_mem) simp
      have nn': "\<forall>x\<in>set ?xs. 0 \<le> x" using nn by auto
      have "total_commits (snd (members ! i)) \<le> sum_list ?xs"
        using member_le_sum_list_int [OF nn' in_set] xi by simp
      moreover have "0 \<le> total_commits (snd (members ! i))" using nn' in_set xi by auto
      ultimately show ?thesis using r pos by (intro truediv_range)
    qed
    from i lk mx first range
    show "\<exists>i<length members.
              map_of balance grp =
                Some \<lparr>dominant_ratio = truediv fl (total_commits (snd (members ! i))) (sum_list ?xs),
                      dominant_member = Some (fst (members ! i))\<rparr>
            \<and> (\<forall>j<length members.
                  total_commits (snd (members ! j)) \<le> total_commits (snd (members ! i)))
            \<and> (\<forall>j<i. total_commits (snd (members ! j)) < total_commits (snd (members ! i)))
            \<and> (rounding fl \<and> (\<forall>(mem, v) \<in> set members. 0 \<le> total_commits v) \<longrightarrow>
                  0 \<le> truediv fl (total_commits (snd (members ! i))) (sum_list ?xs)
                \<and> truediv fl (total_commits (snd (members ! i))) (sum_list ?xs) \<le> 1)"
      by blast
  qed
  with b show ?thesis by (auto simp: calculate_balance_indicators_def)
qed

text \<open>
  The table of the two groups with 5 and 15 commits and with no commit, with the exact
  quotient: the indicators are 3/4, a ratio between 0 and 1, with the member of 15
  commits, and 0 with no member.
\<close>

theorem balance_indicators_witness:
  "distinct (map fst eg_data) \<and> rounding (\<lambda>q. q)
   \<and> (str_of ''B'', [(str_of ''m3'', eg_volume 0)]) \<in> set eg_data
   \<and> sum_list (map (\<lambda>(mem, v). total_commits v) [(str_of ''m3'', eg_volume 0)]) = 0
   \<and> (str_of ''A'', [(str_of ''m1'', eg_volume 5), (str_of ''m2'', eg_volume 15)]) \<in> set eg_data
   \<and> 0 < sum_list (map (\<lambda>(mem, v). total_commits v)
                [(str_of ''m1'', eg_volume 5), (str_of ''m2'', eg_volume 15)])
   \<and> list_all (\<lambda>(mem, v). 0 \<le> total_commits v)
        [(str_of ''m1'', eg_volume 5), (str_of ''m2'', eg_volume 15)]
   \<and> calculate_balance_indicators (\<lambda>q. q) eg_data = Inr eg_balance
   \<and> map_of eg_balance (str_of ''B'') = Some \<lparr>dominant_ratio = 0, dominant_member = None\<rparr>
   \<and> map_of eg_balance (str_of ''A'')
       = Some \<lparr>dominant_ratio = 3 / 4, dominant_member = Some (str_of ''m2'')\<rparr>
   \<and> 0 \<le> dominant_ratio (the (map_of eg_balance (str_of ''A'')))
   \<and> dominant_ratio (the (map_of eg_balance (str_of ''A''))) \<le> 1"
proof -
  let ?mA = "[(str_of ''m1'', eg_volume 5), (str_of ''m2'', eg_volume 15)]"
  let ?mB = "[(str_of ''m3'', eg_volume 0)]"
  have d: "distinct (map fst eg_data)" by code_simp
  have r: "rounding (\<lambda>q. q)" by (simp add: rounding_def)
  have mB: "(str_of ''B'', ?mB) \<in> set eg_data" by code_simp
  have zB: "sum_list (map (\<lambda>(mem, v). total_commits v) ?mB) = 0" by code_simp
  have mA: "(str_of ''A'', ?mA) \<in> set eg_data" by code_simp
  have pA: "0 < sum_list (map (\<lambda>(mem, v). total_commits v) ?mA)" by code_simp
  have nA: "list_all (\<lambda>(mem, v). 0 \<le> total_commits v) ?mA" by code_simp
  then have nA': "\<forall>(mem, v) \<in> set ?mA. 0 \<le> total_commits v" by (simp only: list_all_iff)
  have c: "calculate_balance_indicators (\<lambda>q. q) eg_data = Inr eg_balance" by code_simp
  have a: "map_of eg_balance (str_of ''A'')
       = Some \<lparr>dominant_ratio = 3 / 4, dominant_member = Some (str_of ''m2'')\<rparr>" by code_simp
  from balance_indicators [OF d, of "\<lambda>q. q"] obtain balance where
    b: "calculate_balance_indicators (\<lambda>q. q) eg_data = Inr balance"
    and p: "\<And>grp members. (grp, members) \<in> set eg_data \<Longrightarrow>
        (sum_list (map (\<lambda>(mem, v). total_commits v) members) = 0 \<longrightarrow>
           map_of balance grp = Some \<lparr>dominant_ratio = 0, dominant_member = None\<rparr>)
      \<and> (0 < sum_list (map (\<lambda>(mem, v). total_commits v) members) \<longrightarrow>
           (\<exists>x. map_of balance grp = Some x
            \<and> (rounding (\<lambda>q. q) \<and> (\<forall>(mem, v) \<in> set members. 0 \<le> total_commits v) \<longrightarrow>
                  0 \<le> dominant_ratio x \<and> dominant_ratio x \<le> 1)))"
    by fastforce
  from b c have e: "balance = eg_balance" by simp
  from p [OF mB] zB have 1: "map_of eg_balance (str_of ''B'')
      = Some \<lparr>dominant_ratio = 0, dominant_member = None\<rparr>"
    unfolding e by blast
  from p [OF mA] pA r nA' obtain x where "map_of eg_balance (str_of ''A'') = Some x"
    and "0 \<le> dominant_ratio x \<and> dominant_ratio x \<le> 1"
    unfolding e by blast
  then have 2: "0 \<le> dominant_ratio (the (map_of eg_balance (str_of ''A'')))
      \<and> dominant_ratio (the (map_of eg_balance (str_of ''A''))) \<le> 1"
    by simp
  from d r mB zB mA pA nA c a 1 2 show ?thesis by blast
qed

section \<open>A run\<close>

text \<open>
  Claim C7, amended. If the target date of the run is malformed, the run ends with the
  message on the date format before any repository is analysed and any table is
  written. If the start date of the configuration is malformed, the run only logs a
  warning and goes on as a run with no start date configured, from 2025-02-01. A run whose
  target date is well formed, with an end date that \<^verbatim>\<open>datetime\<close> can hold, writes its
  tables and ends with the closing message.
\<close>

theorem malformed_dates:
  "(strptime (arg_target_date a) = None \<longrightarrow>
      list_all (\<lambda>e. \<not> touches e) (main lower strptime a conf)
      \<and> last (main lower strptime a conf) = Print_invalid_date)
   \<and> (\<forall>date_str. conf_fixed_project_start_date conf = Some date_str \<and> strptime date_str = None
        \<longrightarrow> main lower strptime a conf
              = Log_warning # main lower strptime a (conf\<lparr>conf_fixed_project_start_date := None\<rparr>))
   \<and> (\<forall>target_date end_date'. strptime (arg_target_date a) = Some target_date
          \<and> add_days target_date (arg_analysis_days a) = Inr end_date'
        \<longrightarrow> (\<exists>files. Written files \<in> set (main lower strptime a conf))
            \<and> last (main lower strptime a conf) = Print_complete)"
proof (intro conjI allI impI)
  assume "strptime (arg_target_date a) = None"
  then show "list_all (\<lambda>e. \<not> touches e) (main lower strptime a conf)"
    by (simp add: main_def validate_date_format_def start_date_of_def split: option.splits)
next
  assume "strptime (arg_target_date a) = None"
  then show "last (main lower strptime a conf) = Print_invalid_date"
    by (simp add: main_def validate_date_format_def split: prod.splits)
next
  fix date_str
  assume "conf_fixed_project_start_date conf = Some date_str \<and> strptime date_str = None"
  then show "main lower strptime a conf
      = Log_warning # main lower strptime a (conf\<lparr>conf_fixed_project_start_date := None\<rparr>)"
    by (simp add: main_def validate_date_format_def start_date_of_def split: option.splits sum.splits)
next
  fix target_date end_date'
  assume h: "strptime (arg_target_date a) = Some target_date
          \<and> add_days target_date (arg_analysis_days a) = Inr end_date'"
  then obtain events where w: "write_volumes_to_csv lower (arg_student_folders a) target_date
       (arg_analysis_days a) (fst (start_date_of strptime conf))
       (case conf_excluded_members conf of None \<Rightarrow> [] | Some l \<Rightarrow> l)
       (case conf_alias_mapping_by_group conf of None \<Rightarrow> Map.empty | Some m \<Rightarrow> m)
       (map_alias_to_name lower) = Inr events"
    and ev: "\<exists>files. Written files \<in> set events"
    using folders_loop_writes by (fastforce simp: write_volumes_to_csv_def Let_def)
  have m: "main lower strptime a conf = snd (start_date_of strptime conf) @ events @ [Print_complete]"
    using h w by (cases "start_date_of strptime conf") (simp add: main_def validate_date_format_def)
  show "\<exists>files. Written files \<in> set (main lower strptime a conf)"
    using ev by (auto simp: m)
  show "last (main lower strptime a conf) = Print_complete"
    by (simp add: m)
qed

text \<open>
  A target date in another format stops the run at once; a start date in another format
  adds a warning to the run without it.
\<close>

theorem malformed_dates_witness:
  "eg_strptime (arg_target_date (eg_args ''03-02-2025'')) = None
   \<and> main ascii_lower eg_strptime (eg_args ''03-02-2025'') (eg_config None) = [Print_invalid_date]
   \<and> list_all (\<lambda>e. \<not> touches e) (main ascii_lower eg_strptime (eg_args ''03-02-2025'') (eg_config None))
   \<and> conf_fixed_project_start_date (eg_config (Some ''01/02/2025'')) = Some (str_of ''01/02/2025'')
   \<and> eg_strptime (str_of ''01/02/2025'') = None
   \<and> main ascii_lower eg_strptime (eg_args ''2025-02-03'') (eg_config (Some ''01/02/2025''))
       = Log_warning # main ascii_lower eg_strptime (eg_args ''2025-02-03'') (eg_config None)
   \<and> eg_strptime (arg_target_date (eg_args ''2025-02-03'')) = Some (datetime_ymd 2025 2 3)
   \<and> add_days (datetime_ymd 2025 2 3) (arg_analysis_days (eg_args ''2025-02-03''))
       = Inr (datetime_ymd 2025 2 3)
   \<and> last (main ascii_lower eg_strptime (eg_args ''2025-02-03'') (eg_config None)) = Print_complete"
proof -
  have t: "eg_strptime (arg_target_date (eg_args ''03-02-2025'')) = None" by code_simp
  have v: "main ascii_lower eg_strptime (eg_args ''03-02-2025'') (eg_config None) = [Print_invalid_date]"
    by code_simp
  have c: "conf_fixed_project_start_date (eg_config (Some ''01/02/2025'')) = Some (str_of ''01/02/2025'')"
    by code_simp
  have s: "eg_strptime (str_of ''01/02/2025'') = None" by code_simp
  have n: "(eg_config (Some ''01/02/2025''))\<lparr>conf_fixed_project_start_date := None\<rparr> = eg_config None"
    by (simp add: eg_config_def)
  have g: "eg_strptime (arg_target_date (eg_args ''2025-02-03'')) = Some (datetime_ymd 2025 2 3)"
    by code_simp
  have e: "add_days (datetime_ymd 2025 2 3) (arg_analysis_days (eg_args ''2025-02-03''))
       = Inr (datetime_ymd 2025 2 3)"
    by code_simp
  have 1: "list_all (\<lambda>e. \<not> touches e) (main ascii_lower eg_strptime (eg_args ''03-02-2025'') (eg_config None))"
    using malformed_dates [of eg_strptime "eg_args ''03-02-2025''" ascii_lower "eg_config None"] t
    by blast
  have 2: "main ascii_lower eg_strptime (eg_args ''2025-02-03'') (eg_config (Some ''01/02/2025''))
       = Log_warning # main ascii_lower eg_strptime (eg_args ''2025-02-03'') (eg_config None)"
    using malformed_dates [of eg_strptime "eg_args ''2025-02-03''" ascii_lower
        "eg_config (Some ''01/02/2025'')"] c s
    unfolding n by blast
  have 3: "last (main ascii_lower eg_strptime (eg_args ''2025-02-03'') (eg_config None)) = Print_complete"
    using malformed_dates [of eg_strptime "eg_args ''2025-02-03''" ascii_lower "eg_config None"] g e
    by blast
  from t v c s g e 1 2 3 show ?thesis by blast
qed

text \<open>
  Claim C7 as stated, that a malformed start date aborts the run before any repository is
  touched, fails: with the start date \<^verbatim>\<open>01/02/2025\<close> and the target date 2025-02-03 the
  run logs a warning, analyses the repository of the group from 2025-02-01 and writes the
  two tables.
\<close>

theorem malformed_start_date_does_not_abort:
  "conf_fixed_project_start_date (eg_config (Some ''01/02/2025'')) = Some (str_of ''01/02/2025'')
   \<and> eg_strptime (str_of ''01/02/2025'') = None
   \<and> main ascii_lower eg_strptime (eg_args ''2025-02-03'') (eg_config (Some ''01/02/2025''))
     = [Log_warning,
        Collect (str_of ''group1'') (Repo [Branch [eg_commit ''Alice'' 739284] False]),
        Written \<lparr>output_csv = [(str_of ''group1'', str_of ''alice'', 10, 2, 1, 1)],
                 daily_csv = [(str_of ''group1'', str_of ''alice'', 739283, 0, 0, 0),
                              (str_of ''group1'', str_of ''alice'', 739284, 10, 2, 1)]\<rparr>,
        Print_complete]"
  by code_simp

end
